theory Spec2Isabelle
  imports Complex_Main "HOL-Library.Word"
begin

unbundle bit_operations_syntax

section \<open>Register map: parsing and dumping bytes (register\_map.cpp)\<close>

text \<open>
  A \<^verbatim>\<open>uint8_t *\<close> is a view of memory without a length: the model is a function
  from the index to the byte, \<^verbatim>\<open>buf[i] = v\<close> is a function update and
  \<^verbatim>\<open>bytes[i]\<close> an application.
\<close>

type_synonym uint8_t = "8 word"
type_synonym uint16_t = "16 word"
type_synonym uint32_t = "32 word"
type_synonym uint64_t = "64 word"
type_synonym bytes_ptr = "nat \<Rightarrow> uint8_t"

text \<open>\<^verbatim>\<open>sizeof(T)\<close> of an integral type of \<open>LENGTH('a)\<close> bits, in bytes.\<close>

definition sizeof :: "'a::len itself \<Rightarrow> nat" where
  "sizeof T = LENGTH('a) div 8"

text \<open>
  \<^verbatim>\<open>template <typename T> T ParseBytes(const uint8_t *bytes)\<close>: the loop
  \<^verbatim>\<open>result |= static_cast<T>(bytes[i]) << (8 * i)\<close> for \<open>i\<close> from 0 below
  \<^verbatim>\<open>sizeof(T)\<close>. A value of type \<open>T\<close> is its bit pattern, for the signed and the
  unsigned types alike; the result of the shift is cut to the width of \<open>T\<close> when it is
  stored in \<open>result\<close>.
\<close>

definition ParseBytes_step :: "bytes_ptr \<Rightarrow> nat \<Rightarrow> 'a::len word \<Rightarrow> 'a word" where
  "ParseBytes_step bytes i result = result OR push_bit (8 * i) (ucast (bytes i))"

definition ParseBytes :: "bytes_ptr \<Rightarrow> 'a::len word" where
  "ParseBytes bytes = fold (ParseBytes_step bytes) [0..<sizeof TYPE('a)] 0"

text \<open>
  \<^verbatim>\<open>dumpBytes(const T &value, uint8_t *buf)\<close>: the loop
  \<^verbatim>\<open>buf[i] = static_cast<uint8_t>(value >> (i * 8))\<close>. On an unsigned \<open>T\<close> the shift
  is logical, on a signed \<open>T\<close> it is arithmetic.
\<close>

definition dumpBytes_step :: "'a::len word \<Rightarrow> nat \<Rightarrow> bytes_ptr \<Rightarrow> bytes_ptr" where
  "dumpBytes_step v i buf = buf(i := ucast (drop_bit (i * 8) v))"

definition dumpBytes :: "'a::len word \<Rightarrow> bytes_ptr \<Rightarrow> bytes_ptr" where
  "dumpBytes v buf = fold (dumpBytes_step v) [0..<sizeof TYPE('a)] buf"

definition dumpBytes_signed_step :: "'a::len word \<Rightarrow> nat \<Rightarrow> bytes_ptr \<Rightarrow> bytes_ptr" where
  "dumpBytes_signed_step v i buf = buf(i := ucast (signed_drop_bit (i * 8) v))"

definition dumpBytes_signed :: "'a::len word \<Rightarrow> bytes_ptr \<Rightarrow> bytes_ptr" where
  "dumpBytes_signed v buf = fold (dumpBytes_signed_step v) [0..<sizeof TYPE('a)] buf"

text \<open>
  Integer promotion. Where \<open>T\<close> is narrower than \<^verbatim>\<open>int\<close>, C++ computes the shift and
  the \<^verbatim>\<open>|\<close> of both loops in the 32-bit \<^verbatim>\<open>int\<close>: the operands of type \<open>T\<close> are
  promoted, sign-extended for a signed \<open>T\<close> and zero-extended for an unsigned one, and the
  result is cut back to \<open>T\<close>, or to the byte. The two steps below spell this out; they
  are shown to be equal to the steps above for every \<open>T\<close> of at most 32 bits.
\<close>

definition ParseBytes_step_int :: "bool \<Rightarrow> bytes_ptr \<Rightarrow> nat \<Rightarrow> 'a::len word \<Rightarrow> 'a word" where
  "ParseBytes_step_int is_signed bytes i result =
     (let promote = (if is_signed then scast else ucast) :: 'a word \<Rightarrow> 32 word
      in ucast (promote result OR push_bit (8 * i) (promote (ucast (bytes i)))))"

definition dumpBytes_step_int :: "bool \<Rightarrow> 'a::len word \<Rightarrow> nat \<Rightarrow> bytes_ptr \<Rightarrow> bytes_ptr" where
  "dumpBytes_step_int is_signed v i buf =
     (if is_signed then buf(i := ucast (signed_drop_bit (i * 8) (scast v :: 32 word)))
      else buf(i := ucast (drop_bit (i * 8) (ucast v :: 32 word))))"


text \<open>
  A buffer that holds the bytes of a list at its start and zero bytes behind them, for the
  examples; \<open>array_of []\<close> is a zeroed buffer.
\<close>

definition array_of :: "uint8_t list \<Rightarrow> bytes_ptr" where
  "array_of xs i = (if i < length xs then xs ! i else 0)"

subsection \<open>Exceptions\<close>

text \<open>
  Modelled from the spec: the declaration of \<^verbatim>\<open>ControlErrorType\<close> is not in the source,
  which names \<open>Io\<close> and \<open>InvalidDevice\<close> only. The kinds are those of the spec's error
  taxonomy, and \<open>UnsupportedOperation\<close>, which the spec names for a missing SIRM.
\<close>

datatype ControlErrorType =
    Io | InvalidDevice | InvalidPacket | Nak | Timeout | PendingAckExceeded | NotOpened
  | BufferTooSmall | ParseError | UnsupportedOperation

text \<open>\<^verbatim>\<open>ControlError(ControlErrorType, message)\<close>, as u3v.cpp constructs it.\<close>

datatype ControlError = ControlError ControlErrorType string

fun ControlError_type :: "ControlError \<Rightarrow> ControlErrorType" where
  "ControlError_type (ControlError t m) = t"

text \<open>
  The throw sites of register\_map.cpp and control\_handle.cpp build their exception from a
  message only: \<^verbatim>\<open>std::runtime_error(msg)\<close>, \<^verbatim>\<open>ControlError(msg)\<close> (declared in
  register\_map.cpp as a subclass of \<^verbatim>\<open>std::runtime_error\<close>) and \<^verbatim>\<open>StreamError(msg)\<close>.
  The fourth form is a \<^verbatim>\<open>ControlError\<close> built from a kind and a message, as u3v.cpp
  builds it; it is the only one that carries a kind.
  A function that can throw returns \<open>exception + 'a\<close>, \<open>Inl\<close> being the throw, or,
  where it works on a buffer, a pool or a handle of the caller, its result or exception
  and the buffer, pool or handle as the call leaves it.
\<close>

datatype exception =
    runtime_error string
  | ControlError_what string
  | StreamError_what string
  | ControlError_typed ControlError


subsection \<open>BusSpeed\<close>

datatype BusSpeed = LowSpeed | FullSpeed | HighSpeed | SuperSpeed | SuperSpeedPlus

text \<open>The enumerators' values: \<^verbatim>\<open>enum class BusSpeed : uint8_t\<close>.\<close>

fun BusSpeed_value :: "BusSpeed \<Rightarrow> uint8_t" where
  "BusSpeed_value LowSpeed = 0b1"
| "BusSpeed_value FullSpeed = 0b10"
| "BusSpeed_value HighSpeed = 0b100"
| "BusSpeed_value SuperSpeed = 0b1000"
| "BusSpeed_value SuperSpeedPlus = 0b10000"

text \<open>
  \<^verbatim>\<open>ParseBytes<uint32_t>::parse_bytes\<close>, the primary class template at \<open>T = uint32_t\<close>:
  \<^verbatim>\<open>static_cast<T>(bytes[0] | (bytes[1] << 8) | (bytes[2] << 16) | (bytes[3] << 24))\<close>.
  The bytes are promoted to the 32-bit \<^verbatim>\<open>int\<close>, whose bit pattern the cast keeps.
\<close>

definition parse_bytes_uint32 :: "bytes_ptr \<Rightarrow> uint32_t" where
  "parse_bytes_uint32 bytes =
     ((ucast (bytes 0) OR push_bit 8 (ucast (bytes 1))) OR push_bit 16 (ucast (bytes 2)))
       OR push_bit 24 (ucast (bytes 3))"

text \<open>\<^verbatim>\<open>ParseBytes<u3v::BusSpeed>::parse_bytes\<close>: the switch over the raw value.\<close>

definition parse_bytes_BusSpeed :: "bytes_ptr \<Rightarrow> exception + BusSpeed" where
  "parse_bytes_BusSpeed bytes =
     (let raw = parse_bytes_uint32 bytes in
      if raw = 0b1 then Inr LowSpeed
      else if raw = 0b10 then Inr FullSpeed
      else if raw = 0b100 then Inr HighSpeed
      else if raw = 0b1000 then Inr SuperSpeed
      else if raw = 0b10000 then Inr SuperSpeedPlus
      else Inl (ControlError_what ''invalid bus speed defined''))"

subsection \<open>Strings\<close>

text \<open>
  A \<^verbatim>\<open>std::string\<close> is a \<open>string\<close>, one \<open>char\<close> per byte; \<^verbatim>\<open>c_str()\<close> gives its
  bytes. \<^verbatim>\<open>std::memcpy(dst, src, n)\<close> overwrites the first \<open>n\<close> bytes of \<open>dst\<close>.
\<close>

definition c_str :: "string \<Rightarrow> uint8_t list" where
  "c_str str = map of_char str"

definition memcpy :: "bytes_ptr \<Rightarrow> uint8_t list \<Rightarrow> nat \<Rightarrow> bytes_ptr" where
  "memcpy dst src n = (\<lambda>i. if i < n then src ! i else dst i)"

text \<open>
  \<^verbatim>\<open>void dumpBytes(const std::string &str, uint8_t *buf, size_t bufSize)\<close>. The result
  is the exception thrown, if any, and the buffer as the call leaves it.
\<close>

definition dumpBytes_string :: "string \<Rightarrow> bytes_ptr \<Rightarrow> nat \<Rightarrow> exception option \<times> bytes_ptr" where
  "dumpBytes_string str buf bufSize =
     (if length str > bufSize then (Some (runtime_error ''too large string''), buf)
      else
        let buf1 = memcpy buf (c_str str) (length str);
            buf2 = (if length str < bufSize then buf1(length str := 0) else buf1)
        in (None, buf2))"

text \<open>The bytes of a register slot of \<open>W\<close> bytes.\<close>

definition slot :: "bytes_ptr \<Rightarrow> nat \<Rightarrow> uint8_t list" where
  "slot buf W = map buf [0..<W]"

text \<open>
  Well-formed UTF-8, as the Unicode standard defines it: one byte below \<open>0x80\<close>, or a
  lead byte \<open>C2..DF\<close>, \<open>E0..EF\<close> or \<open>F0..F4\<close> followed by one, two or three
  continuation bytes \<open>80..BF\<close>, the first of them in a narrower range after the lead
  bytes \<open>E0\<close>, \<open>ED\<close>, \<open>F0\<close> and \<open>F4\<close>.
\<close>

definition continuation :: "uint8_t \<Rightarrow> bool" where
  "continuation b \<longleftrightarrow> 0x80 \<le> b \<and> b \<le> 0xBF"

definition second_of_3 :: "uint8_t \<Rightarrow> uint8_t \<Rightarrow> bool" where
  "second_of_3 b0 b1 \<longleftrightarrow>
     (if b0 = 0xE0 then 0xA0 \<le> b1 \<and> b1 \<le> 0xBF
      else if b0 = 0xED then 0x80 \<le> b1 \<and> b1 \<le> 0x9F
      else continuation b1)"

definition second_of_4 :: "uint8_t \<Rightarrow> uint8_t \<Rightarrow> bool" where
  "second_of_4 b0 b1 \<longleftrightarrow>
     (if b0 = 0xF0 then 0x90 \<le> b1 \<and> b1 \<le> 0xBF
      else if b0 = 0xF4 then 0x80 \<le> b1 \<and> b1 \<le> 0x8F
      else continuation b1)"

fun valid_utf8 :: "uint8_t list \<Rightarrow> bool" where
  "valid_utf8 [] \<longleftrightarrow> True"
| "valid_utf8 (b0 # bs) \<longleftrightarrow>
     (if b0 < 0x80 then valid_utf8 bs
      else if 0xC2 \<le> b0 \<and> b0 \<le> 0xDF then
        (case bs of b1 # r \<Rightarrow> continuation b1 \<and> valid_utf8 r | _ \<Rightarrow> False)
      else if 0xE0 \<le> b0 \<and> b0 \<le> 0xEF then
        (case bs of b1 # b2 # r \<Rightarrow> second_of_3 b0 b1 \<and> continuation b2 \<and> valid_utf8 r
         | _ \<Rightarrow> False)
      else if 0xF0 \<le> b0 \<and> b0 \<le> 0xF4 then
        (case bs of b1 # b2 # b3 # r \<Rightarrow>
             second_of_4 b0 b1 \<and> continuation b2 \<and> continuation b3 \<and> valid_utf8 r
         | _ \<Rightarrow> False)
      else False)"

text \<open>
  Modelled from the spec: the decoder of a string register is not in the source. The spec
  says that strings are fixed-width, zero-terminated within the slot, that decoding stops
  at the first zero byte, and that the bytes are UTF-8 iff the UTF-8 capability bit is
  set, else ASCII with replacement of invalid bytes. The decoded text is a \<open>string\<close>
  with one \<open>char\<close> per byte of its UTF-8 form. In ASCII every byte from \<open>0x80\<close> on is
  invalid and gives the \<open>replacement\<close>, which the spec does not name and which is a
  parameter. The spec does not say what decoding gives for bytes that are not
  well-formed UTF-8 when the capability bit is set: the model gives no text, \<open>None\<close>.
\<close>

definition text_of :: "uint8_t list \<Rightarrow> string" where
  "text_of bs = map (\<lambda>b. char_of (unat b)) bs"

definition ascii_lossy :: "string \<Rightarrow> uint8_t list \<Rightarrow> string" where
  "ascii_lossy replacement bs =
     concat (map (\<lambda>b. if b < 0x80 then [char_of (unat b)] else replacement) bs)"

definition parse_string :: "bool \<Rightarrow> string \<Rightarrow> bytes_ptr \<Rightarrow> nat \<Rightarrow> string option" where
  "parse_string utf8 replacement buf W =
     (let raw = takeWhile (\<lambda>b. b \<noteq> 0) (slot buf W) in
      if utf8 then (if valid_utf8 raw then Some (text_of raw) else None)
      else Some (ascii_lossy replacement raw))"


section \<open>Enumeration and error conversion (u3v.cpp)\<close>

text \<open>The fields of \<^verbatim>\<open>DeviceInfo\<close> that \<^verbatim>\<open>enumerateCameras\<close> reads.\<close>

record DeviceInfo =
  vendorName :: string
  modelName :: string
  serialNumber :: string

record CameraInfo =
  vendor_name :: string
  model_name :: string
  serial_number :: string

text \<open>
  \<^verbatim>\<open>Camera<ControlHandle, StreamHandle>\<close> as \<^verbatim>\<open>emplace_back(ctrl, strm, nullptr,
  camera_info)\<close> builds it; the third component is the null pointer.
\<close>

record ('c, 's) Camera =
  Camera_ctrl :: 'c
  Camera_strm :: 's
  Camera_ctxt :: "unit option"
  Camera_info :: CameraInfo

text \<open>
  What \<^verbatim>\<open>enumerateCameras\<close> calls and the source does not define: \<^verbatim>\<open>u3v::enumerateDevices()\<close>,
  the constructors \<^verbatim>\<open>ControlHandle(dev)\<close> and \<^verbatim>\<open>StreamHandle(dev)\<close>, and \<^verbatim>\<open>isValid()\<close>
  of each. They are parameters of the model.
\<close>

record ('c, 's) usb_facility =
  enumerateDevices :: "DeviceInfo list"
  ControlHandle_ctor :: "DeviceInfo \<Rightarrow> 'c"
  ControlHandle_isValid :: "'c \<Rightarrow> bool"
  StreamHandle_ctor :: "DeviceInfo \<Rightarrow> 's"
  StreamHandle_isValid :: "'s \<Rightarrow> bool"

text \<open>The body of the \<^verbatim>\<open>for (const auto& dev : devices)\<close> loop, \<open>cameras\<close> being the vector built so far.\<close>

fun enumerateCameras_loop ::
  "('c, 's) usb_facility \<Rightarrow> DeviceInfo list \<Rightarrow> ('c, 's) Camera list \<Rightarrow> ('c, 's) Camera list" where
  "enumerateCameras_loop usb [] cameras = cameras"
| "enumerateCameras_loop usb (dev # devices) cameras =
     (let ctrl = ControlHandle_ctor usb dev in
      if \<not> ControlHandle_isValid usb ctrl then enumerateCameras_loop usb devices cameras
      else
        let strm = StreamHandle_ctor usb dev in
        if \<not> StreamHandle_isValid usb strm then enumerateCameras_loop usb devices cameras
        else
          let camera_info = \<lparr>vendor_name = vendorName dev, model_name = modelName dev,
                               serial_number = serialNumber dev\<rparr>
          in enumerateCameras_loop usb devices
               (cameras @ [\<lparr>Camera_ctrl = ctrl, Camera_strm = strm, Camera_ctxt = None,
                            Camera_info = camera_info\<rparr>]))"

definition enumerateCameras :: "('c, 's) usb_facility \<Rightarrow> ('c, 's) Camera list" where
  "enumerateCameras usb = enumerateCameras_loop usb (enumerateDevices usb) []"

text \<open>The camera that the loop builds for a device both of whose handles are valid.\<close>

definition camera_of :: "('c, 's) usb_facility \<Rightarrow> DeviceInfo \<Rightarrow> ('c, 's) Camera" where
  "camera_of usb dev =
     \<lparr>Camera_ctrl = ControlHandle_ctor usb dev, Camera_strm = StreamHandle_ctor usb dev,
      Camera_ctxt = None,
      Camera_info = \<lparr>vendor_name = vendorName dev, model_name = modelName dev,
                     serial_number = serialNumber dev\<rparr>\<rparr>"

definition usable :: "('c, 's) usb_facility \<Rightarrow> DeviceInfo \<Rightarrow> bool" where
  "usable usb dev \<longleftrightarrow>
     ControlHandle_isValid usb (ControlHandle_ctor usb dev) \<and>
     StreamHandle_isValid usb (StreamHandle_ctor usb dev)"

subsection \<open>convertToControlError\<close>

text \<open>\<^verbatim>\<open>u3v::ErrorType\<close>, the four labels of the switch.\<close>

datatype ErrorType = LibUsb | BufferIo | InvalidPacket | InvalidDevice

text \<open>
  A \<^verbatim>\<open>u3v::Error\<close>: its \<^verbatim>\<open>type()\<close>, its \<^verbatim>\<open>what()\<close> and the libusb code that
  \<^verbatim>\<open>std::get<u3v::LibUsbError>\<close> reads from it.
\<close>

record Error =
  type :: ErrorType
  what :: string
  libusb_error :: int

text \<open>
  \<^verbatim>\<open>convertToControlError\<close>. The inner switch over the libusb error has no case and no
  return, and the \<open>LibUsb\<close> case has no break: control falls through to the labels
  \<open>BufferIo\<close> and \<open>InvalidPacket\<close>.
\<close>

fun convertToControlError_switch :: "ErrorType \<Rightarrow> string \<Rightarrow> ControlError" where
  "convertToControlError_switch ErrorType.LibUsb w = ControlError ControlErrorType.Io w"
| "convertToControlError_switch ErrorType.BufferIo w = ControlError ControlErrorType.Io w"
| "convertToControlError_switch ErrorType.InvalidPacket w = ControlError ControlErrorType.Io w"
| "convertToControlError_switch ErrorType.InvalidDevice w =
     ControlError ControlErrorType.InvalidDevice ''invalid device''"

definition convertToControlError :: "Error \<Rightarrow> ControlError" where
  "convertToControlError err = convertToControlError_switch (type err) (what err)"



section \<open>Connection configuration and the shared handle (ControlHandle.h, control\_handle.cpp)\<close>

type_synonym size_t = "64 word"

text \<open>
  \<^verbatim>\<open>std::chrono::milliseconds\<close> is an integer count of milliseconds;
  \<^verbatim>\<open>std::chrono::duration<double>\<close> counts seconds. The conversion from the first to
  the second divides by 1000; the model keeps the exact quotient, which for the 500 ms of
  the initial timeout is 0.5, a value that a \<^verbatim>\<open>double\<close> holds exactly.
\<close>

type_synonym milliseconds = int
type_synonym seconds = rat

definition seconds_of_milliseconds :: "milliseconds \<Rightarrow> seconds" where
  "seconds_of_milliseconds ms = of_int ms / 1000"

definition INITIAL_TIMEOUT_DURATION :: milliseconds where
  "INITIAL_TIMEOUT_DURATION = 500"

definition INITIAL_MAXIMUM_CMD_LENGTH :: uint32_t where
  "INITIAL_MAXIMUM_CMD_LENGTH = 128"

definition INITIAL_MAXIMUM_ACK_LENGTH :: uint32_t where
  "INITIAL_MAXIMUM_ACK_LENGTH = 128"

definition PAYLOAD_TRANSFER_SIZE :: uint32_t where
  "PAYLOAD_TRANSFER_SIZE = 1024 * 64"

record ConnectionConfig =
  timeout_duration :: seconds
  retry_count :: uint16_t
  maximum_cmd_length :: uint32_t
  maximum_ack_length :: uint32_t

text \<open>\<^verbatim>\<open>ConnectionConfig::ConnectionConfig()\<close>, the member initialiser list.\<close>

definition ConnectionConfig_ctor :: ConnectionConfig where
  "ConnectionConfig_ctor =
     \<lparr>timeout_duration = seconds_of_milliseconds INITIAL_TIMEOUT_DURATION,
      retry_count = 3,
      maximum_cmd_length = INITIAL_MAXIMUM_CMD_LENGTH,
      maximum_ack_length = INITIAL_MAXIMUM_ACK_LENGTH\<rparr>"

subsection \<open>DeviceControl and SharedControlHandle\<close>

text \<open>
  The pure virtual interface \<^verbatim>\<open>DeviceControl\<close> over a handle of type \<open>'h\<close>: one field
  for each member function. A \<^verbatim>\<open>const\<close> member reads the handle; the others return
  their result and the handle as they leave it. \<^verbatim>\<open>read\<close> fills the caller's vector,
  returned with the result. The result types \<open>'b\<close> (of the members that return
  \<^verbatim>\<open>bool\<close>) and \<open>'g\<close> (of \<^verbatim>\<open>genapi\<close>) are left open, so that a member that throws
  is covered: its exception is then a value of the result type.
\<close>

record ('h, 'b, 'g) DeviceControl =
  dc_timeout_duration :: "'h \<Rightarrow> milliseconds"
  dc_set_timeout_duration :: "milliseconds \<Rightarrow> 'h \<Rightarrow> 'h"
  dc_retry_count :: "'h \<Rightarrow> uint32_t"
  dc_set_retry_count :: "uint32_t \<Rightarrow> 'h \<Rightarrow> 'h"
  dc_buffer_capacity :: "'h \<Rightarrow> size_t"
  dc_resize_buffer :: "size_t \<Rightarrow> 'h \<Rightarrow> 'h"
  dc_device_info :: "'h \<Rightarrow> DeviceInfo"
  dc_is_opened :: "'h \<Rightarrow> bool"
  dc_open :: "'h \<Rightarrow> 'b \<times> 'h"
  dc_close :: "'h \<Rightarrow> 'b \<times> 'h"
  dc_read :: "uint64_t \<Rightarrow> uint8_t list \<Rightarrow> 'h \<Rightarrow> ('b \<times> uint8_t list) \<times> 'h"
  dc_write :: "uint64_t \<Rightarrow> uint8_t list \<Rightarrow> 'h \<Rightarrow> 'b \<times> 'h"
  dc_genapi :: "'h \<Rightarrow> 'g \<times> 'h"
  dc_enable_streaming :: "'h \<Rightarrow> 'b \<times> 'h"
  dc_disable_streaming :: "'h \<Rightarrow> 'b \<times> 'h"

text \<open>
  \<^verbatim>\<open>SharedControlHandle\<close>: the wrapped handle \<open>m_handle\<close> and the mutex \<open>m_mutex\<close>,
  \<open>True\<close> while it is held. The constructor leaves the mutex free.
\<close>

record 'h SharedControlHandle =
  m_handle :: 'h
  m_mutex :: bool

definition SharedControlHandle_ctor :: "'h \<Rightarrow> 'h SharedControlHandle" where
  "SharedControlHandle_ctor handle = \<lparr>m_handle = handle, m_mutex = False\<rparr>"

text \<open>
  \<^verbatim>\<open>std::lock_guard<std::mutex> lock(m_mutex); return m_handle->f(...);\<close> The guard
  takes the mutex, the member of the wrapped handle runs, and the guard's destructor
  releases the mutex when the scope is left. Locking a mutex that is held never returns
  in a single thread: the result is then \<open>None\<close>.
\<close>

definition lock_guard :: "'h SharedControlHandle \<Rightarrow> 'h SharedControlHandle option" where
  "lock_guard s = (if m_mutex s then None else Some (s\<lparr>m_mutex := True\<rparr>))"

definition unlock :: "'h SharedControlHandle \<Rightarrow> 'h SharedControlHandle" where
  "unlock s = s\<lparr>m_mutex := False\<rparr>"

definition locked_const :: "('h \<Rightarrow> 'r) \<Rightarrow> 'h SharedControlHandle \<Rightarrow> ('r \<times> 'h SharedControlHandle) option" where
  "locked_const f s =
     (case lock_guard s of
        None \<Rightarrow> None
      | Some s1 \<Rightarrow> let r = f (m_handle s1) in Some (r, unlock s1))"

definition locked_void :: "('h \<Rightarrow> 'h) \<Rightarrow> 'h SharedControlHandle \<Rightarrow> 'h SharedControlHandle option" where
  "locked_void f s =
     (case lock_guard s of
        None \<Rightarrow> None
      | Some s1 \<Rightarrow> let h = f (m_handle s1) in Some (unlock (s1\<lparr>m_handle := h\<rparr>)))"

definition locked :: "('h \<Rightarrow> 'r \<times> 'h) \<Rightarrow> 'h SharedControlHandle \<Rightarrow> ('r \<times> 'h SharedControlHandle) option" where
  "locked f s =
     (case lock_guard s of
        None \<Rightarrow> None
      | Some s1 \<Rightarrow> let (r, h) = f (m_handle s1) in Some (r, unlock (s1\<lparr>m_handle := h\<rparr>)))"

definition SharedControlHandle_buffer_capacity ::
  "('h, 'b, 'g) DeviceControl \<Rightarrow> 'h SharedControlHandle \<Rightarrow>
     (size_t \<times> 'h SharedControlHandle) option" where
  "SharedControlHandle_buffer_capacity dc = locked_const (dc_buffer_capacity dc)"

definition SharedControlHandle_resize_buffer ::
  "('h, 'b, 'g) DeviceControl \<Rightarrow> size_t \<Rightarrow> 'h SharedControlHandle \<Rightarrow>
     'h SharedControlHandle option" where
  "SharedControlHandle_resize_buffer dc sz = locked_void (dc_resize_buffer dc sz)"

definition SharedControlHandle_timeout_duration ::
  "('h, 'b, 'g) DeviceControl \<Rightarrow> 'h SharedControlHandle \<Rightarrow>
     (milliseconds \<times> 'h SharedControlHandle) option" where
  "SharedControlHandle_timeout_duration dc = locked_const (dc_timeout_duration dc)"

definition SharedControlHandle_set_timeout_duration ::
  "('h, 'b, 'g) DeviceControl \<Rightarrow> milliseconds \<Rightarrow> 'h SharedControlHandle \<Rightarrow>
     'h SharedControlHandle option" where
  "SharedControlHandle_set_timeout_duration dc duration = locked_void (dc_set_timeout_duration dc duration)"

definition SharedControlHandle_retry_count ::
  "('h, 'b, 'g) DeviceControl \<Rightarrow> 'h SharedControlHandle \<Rightarrow>
     (uint32_t \<times> 'h SharedControlHandle) option" where
  "SharedControlHandle_retry_count dc = locked_const (dc_retry_count dc)"

definition SharedControlHandle_set_retry_count ::
  "('h, 'b, 'g) DeviceControl \<Rightarrow> uint32_t \<Rightarrow> 'h SharedControlHandle \<Rightarrow>
     'h SharedControlHandle option" where
  "SharedControlHandle_set_retry_count dc count = locked_void (dc_set_retry_count dc count)"

definition SharedControlHandle_device_info ::
  "('h, 'b, 'g) DeviceControl \<Rightarrow> 'h SharedControlHandle \<Rightarrow>
     (DeviceInfo \<times> 'h SharedControlHandle) option" where
  "SharedControlHandle_device_info dc = locked_const (dc_device_info dc)"

definition SharedControlHandle_is_opened ::
  "('h, 'b, 'g) DeviceControl \<Rightarrow> 'h SharedControlHandle \<Rightarrow>
     (bool \<times> 'h SharedControlHandle) option" where
  "SharedControlHandle_is_opened dc = locked_const (dc_is_opened dc)"

definition SharedControlHandle_open ::
  "('h, 'b, 'g) DeviceControl \<Rightarrow> 'h SharedControlHandle \<Rightarrow>
     ('b \<times> 'h SharedControlHandle) option" where
  "SharedControlHandle_open dc = locked (dc_open dc)"

definition SharedControlHandle_close ::
  "('h, 'b, 'g) DeviceControl \<Rightarrow> 'h SharedControlHandle \<Rightarrow>
     ('b \<times> 'h SharedControlHandle) option" where
  "SharedControlHandle_close dc = locked (dc_close dc)"

definition SharedControlHandle_read ::
  "('h, 'b, 'g) DeviceControl \<Rightarrow> uint64_t \<Rightarrow> uint8_t list \<Rightarrow> 'h SharedControlHandle \<Rightarrow>
     (('b \<times> uint8_t list) \<times> 'h SharedControlHandle) option" where
  "SharedControlHandle_read dc address buf = locked (dc_read dc address buf)"

definition SharedControlHandle_write ::
  "('h, 'b, 'g) DeviceControl \<Rightarrow> uint64_t \<Rightarrow> uint8_t list \<Rightarrow> 'h SharedControlHandle \<Rightarrow>
     ('b \<times> 'h SharedControlHandle) option" where
  "SharedControlHandle_write dc address data = locked (dc_write dc address data)"

definition SharedControlHandle_genapi ::
  "('h, 'b, 'g) DeviceControl \<Rightarrow> 'h SharedControlHandle \<Rightarrow>
     ('g \<times> 'h SharedControlHandle) option" where
  "SharedControlHandle_genapi dc = locked (dc_genapi dc)"

definition SharedControlHandle_enable_streaming ::
  "('h, 'b, 'g) DeviceControl \<Rightarrow> 'h SharedControlHandle \<Rightarrow>
     ('b \<times> 'h SharedControlHandle) option" where
  "SharedControlHandle_enable_streaming dc = locked (dc_enable_streaming dc)"

definition SharedControlHandle_disable_streaming ::
  "('h, 'b, 'g) DeviceControl \<Rightarrow> 'h SharedControlHandle \<Rightarrow>
     ('b \<times> 'h SharedControlHandle) option" where
  "SharedControlHandle_disable_streaming dc = locked (dc_disable_streaming dc)"


section \<open>Stream parameters and payload reads (control\_handle.cpp)\<close>

record StreamParams =
  leader_size :: size_t
  trailer_size :: size_t
  payload_size :: size_t
  payload_count :: size_t
  payload_final1_size :: size_t
  payload_final2_size :: size_t
  timeout :: seconds

text \<open>\<^verbatim>\<open>StreamParams::maximum_payload_size\<close>, in \<^verbatim>\<open>size_t\<close> arithmetic, which wraps at \<open>2 ^ 64\<close>.\<close>

definition maximum_payload_size :: "StreamParams \<Rightarrow> size_t" where
  "maximum_payload_size params =
     payload_size params * payload_count params + payload_final1_size params
       + payload_final2_size params"

text \<open>
  \<^verbatim>\<open>Sirm\<close> is what \<^verbatim>\<open>abrm.sbrm(ctrl).sirm(ctrl)\<close> returns. Modelled from the spec: the
  source declares the class without its members; by the spec the SIRM is absent when the
  SIRM pointer of the SBRM is zero, which is what \<^verbatim>\<open>!sirm\<close> tests.
\<close>

record Sirm =
  sirm_address :: uint64_t

definition Sirm_absent :: "Sirm \<Rightarrow> bool" where
  "Sirm_absent sirm \<longleftrightarrow> sirm_address sirm = 0"

text \<open>
  The register accessors that \<^verbatim>\<open>from_control\<close> calls on \<^verbatim>\<open>Abrm\<close> and \<^verbatim>\<open>Sirm\<close>,
  whose bodies the source leaves out, as parameters over the control handle \<open>'c\<close>. Each
  takes the handle by reference: it returns its value and the handle as it leaves it.
  \<open>sbrm_sirm\<close> is \<^verbatim>\<open>abrm.sbrm(ctrl).sirm(ctrl)\<close>. An accessor that throws would leave
  \<^verbatim>\<open>from_control\<close> by its exception; the model covers the accessors that return.
\<close>

record 'c register_map =
  sbrm_sirm :: "'c \<Rightarrow> Sirm \<times> 'c"
  maximum_leader_size :: "Sirm \<Rightarrow> 'c \<Rightarrow> size_t \<times> 'c"
  maximum_trailer_size :: "Sirm \<Rightarrow> 'c \<Rightarrow> size_t \<times> 'c"
  payload_transfer_size :: "Sirm \<Rightarrow> 'c \<Rightarrow> size_t \<times> 'c"
  payload_transfer_count :: "Sirm \<Rightarrow> 'c \<Rightarrow> size_t \<times> 'c"
  payload_final_transfer1_size :: "Sirm \<Rightarrow> 'c \<Rightarrow> size_t \<times> 'c"
  payload_final_transfer2_size :: "Sirm \<Rightarrow> 'c \<Rightarrow> size_t \<times> 'c"
  maximum_device_response_time :: "'c \<Rightarrow> seconds \<times> 'c"

text \<open>
  \<^verbatim>\<open>StreamParams::from_control\<close>: the SIRM is resolved, the exception is thrown if it
  is absent, and otherwise the seven registers are read in the order of the assignments.
  The result is the parameters or the exception, and the handle as the call leaves it.
\<close>

definition from_control :: "'c register_map \<Rightarrow> 'c \<Rightarrow> (exception + StreamParams) \<times> 'c" where
  "from_control regs ctrl =
     (let (sirm, c1) = sbrm_sirm regs ctrl in
      if Sirm_absent sirm
      then (Inl (ControlError_what ''the U3V device doesn't have `SIRM`''), c1)
      else
        let (leader, c2) = maximum_leader_size regs sirm c1;
            (trailer, c3) = maximum_trailer_size regs sirm c2;
            (payload, c4) = payload_transfer_size regs sirm c3;
            (cnt, c5) = payload_transfer_count regs sirm c4;
            (final1, c6) = payload_final_transfer1_size regs sirm c5;
            (final2, c7) = payload_final_transfer2_size regs sirm c6;
            (t, c8) = maximum_device_response_time regs c7
        in (Inr \<lparr>leader_size = leader, trailer_size = trailer, payload_size = payload,
                  payload_count = cnt, payload_final1_size = final1,
                  payload_final2_size = final2, timeout = t\<rparr>, c8))"

subsection \<open>read\_leader, read\_payload, read\_trailer\<close>

text \<open>
  \<^verbatim>\<open>async_pool.submit(buf.data() + cursor, size)\<close>: the source declares \<^verbatim>\<open>AsyncPool\<close>
  without its members, so \<open>submit\<close> is a parameter. It takes the pool, the offset of the
  target in the buffer and the size, and returns the \<^verbatim>\<open>what()\<close> of the exception it
  throws, if any, and the pool as it leaves it. Of the vector \<open>buf\<close> the functions read
  the size only, \<open>buf_size\<close>.
\<close>

type_synonym 'p submit = "'p \<Rightarrow> size_t \<Rightarrow> size_t \<Rightarrow> string option \<times> 'p"

text \<open>
  The loop \<^verbatim>\<open>for (size_t i = 0; i < params.payload_count; ++i)\<close> of \<^verbatim>\<open>read_payload\<close>,
  with the number of iterations that remain. It returns the cursor as well.
\<close>

fun read_payload_loop ::
  "'p submit \<Rightarrow> size_t \<Rightarrow> nat \<Rightarrow> 'p \<Rightarrow> size_t \<Rightarrow> string option \<times> 'p \<times> size_t" where
  "read_payload_loop submit payload_sz 0 pool cursor = (None, pool, cursor)"
| "read_payload_loop submit payload_sz (Suc n) pool cursor =
     (case submit pool cursor payload_sz of
        (Some e, pool1) \<Rightarrow> (Some e, pool1, cursor)
      | (None, pool1) \<Rightarrow> read_payload_loop submit payload_sz n pool1 (cursor + payload_sz))"

text \<open>The body of the \<^verbatim>\<open>try\<close> block of \<^verbatim>\<open>read_payload\<close>.\<close>

definition read_payload_try :: "'p submit \<Rightarrow> 'p \<Rightarrow> StreamParams \<Rightarrow> string option \<times> 'p" where
  "read_payload_try submit pool params =
     (case read_payload_loop submit (payload_size params) (unat (payload_count params)) pool 0 of
        (Some e, pool1, cursor) \<Rightarrow> (Some e, pool1)
      | (None, pool1, cursor) \<Rightarrow>
          (case (if payload_final1_size params \<noteq> 0
                 then (case submit pool1 cursor (payload_final1_size params) of
                         (r, pool2) \<Rightarrow> (r, pool2, cursor + payload_final1_size params))
                 else (None, pool1, cursor)) of
             (Some e, pool2, cursor2) \<Rightarrow> (Some e, pool2)
           | (None, pool2, cursor2) \<Rightarrow>
               (if payload_final2_size params \<noteq> 0
                then submit pool2 cursor2 (payload_final2_size params)
                else (None, pool2))))"

definition read_payload ::
  "'p submit \<Rightarrow> 'p \<Rightarrow> StreamParams \<Rightarrow> size_t \<Rightarrow> exception option \<times> 'p" where
  "read_payload submit async_pool params buf_size =
     (let total_payload_size =
            payload_size params * payload_count params + payload_final1_size params
              + payload_final2_size params
      in
      if buf_size < total_payload_size
      then (Some (runtime_error ''Buffer is too small to read the payload''), async_pool)
      else
        (case read_payload_try submit async_pool params of
           (Some e, pool1) \<Rightarrow> (Some (StreamError_what (''Failed to read payload: '' @ e)), pool1)
         | (None, pool1) \<Rightarrow> (None, pool1)))"

definition read_leader ::
  "'p submit \<Rightarrow> 'p \<Rightarrow> StreamParams \<Rightarrow> size_t \<Rightarrow> exception option \<times> 'p" where
  "read_leader submit async_pool params buf_size =
     (if buf_size < leader_size params
      then (Some (runtime_error ''Buffer is too small to read the leader''), async_pool)
      else
        (case submit async_pool 0 (leader_size params) of
           (Some e, pool1) \<Rightarrow> (Some (StreamError_what (''Failed to read leader: '' @ e)), pool1)
         | (None, pool1) \<Rightarrow> (None, pool1)))"

definition read_trailer ::
  "'p submit \<Rightarrow> 'p \<Rightarrow> StreamParams \<Rightarrow> size_t \<Rightarrow> exception option \<times> 'p" where
  "read_trailer submit async_pool params buf_size =
     (if buf_size < trailer_size params
      then (Some (runtime_error ''Buffer is too small to read the trailer''), async_pool)
      else
        (case submit async_pool 0 (trailer_size params) of
           (Some e, pool1) \<Rightarrow> (Some (StreamError_what (''Failed to read trailer: '' @ e)), pool1)
         | (None, pool1) \<Rightarrow> (None, pool1)))"

type_synonym region = "nat \<times> nat"

text \<open>
  To speak of the reads that \<^verbatim>\<open>read_payload\<close> submits, whatever the pool does with
  them, \<open>logged submit\<close> runs \<open>submit\<close> on the pool and keeps beside it the region of
  every request, the one that throws included: the offset in the buffer and the length,
  in the order of submission. \<open>accepting\<close> is a pool without state that accepts every
  request.
\<close>

definition logged :: "'p submit \<Rightarrow> ('p \<times> region list) submit" where
  "logged submit pl cursor len =
     (case submit (fst pl) cursor len of
        (e, pool1) \<Rightarrow> (e, (pool1, snd pl @ [(unat cursor, unat len)])))"

definition accepting :: "unit submit" where
  "accepting pool cursor len = (None, pool)"

text \<open>
  A submit that throws for no pool and no request, and a pool that accepts as many
  requests as its state counts and throws at the next one.
\<close>

definition never_throws :: "'p submit \<Rightarrow> bool" where
  "never_throws submit \<longleftrightarrow> (\<forall>pool cursor len. fst (submit pool cursor len) = None)"

definition countdown :: "nat submit" where
  "countdown pool cursor len =
     (if pool = 0 then (Some ''transfer refused'', pool) else (None, pool - 1))"

text \<open>The log alone, of a pool that accepts every request.\<close>

definition record_submit :: "region list submit" where
  "record_submit pool cursor len = (None, pool @ [(unat cursor, unat len)])"

text \<open>
  The regions of \<open>k\<close> equal transfers as the loop of \<^verbatim>\<open>read_payload\<close> computes their
  offsets, in \<^verbatim>\<open>size_t\<close>.
\<close>

definition word_transfers :: "size_t \<Rightarrow> size_t \<Rightarrow> nat \<Rightarrow> region list" where
  "word_transfers ps cursor k = map (\<lambda>i. (unat (cursor + of_nat i * ps), unat ps)) [0..<k]"

text \<open>The properties of a list of regions that the claims speak of.\<close>

fun contiguous_from :: "nat \<Rightarrow> region list \<Rightarrow> bool" where
  "contiguous_from off [] \<longleftrightarrow> True"
| "contiguous_from off (r # rs) \<longleftrightarrow> fst r = off \<and> contiguous_from (off + snd r) rs"

definition region_within :: "nat \<Rightarrow> region \<Rightarrow> bool" where
  "region_within n r \<longleftrightarrow> fst r + snd r \<le> n"

definition regions_disjoint :: "region \<Rightarrow> region \<Rightarrow> bool" where
  "regions_disjoint r s \<longleftrightarrow> fst r + snd r \<le> fst s \<or> fst s + snd s \<le> fst r"

fun pairwise_disjoint :: "region list \<Rightarrow> bool" where
  "pairwise_disjoint [] \<longleftrightarrow> True"
| "pairwise_disjoint (r # rs) \<longleftrightarrow> list_all (regions_disjoint r) rs \<and> pairwise_disjoint rs"

definition total_length :: "region list \<Rightarrow> nat" where
  "total_length rs = sum_list (map snd rs)"


text \<open>
  The regions that \<^verbatim>\<open>read_payload\<close> asks for when sizes and offsets do not wrap: the
  \<open>payload_count\<close> transfers of \<open>payload_size\<close> bytes one behind the other from offset
  0, then the first final transfer and then the second, each only if its size is not 0.
\<close>

definition transfers :: "nat \<Rightarrow> nat \<Rightarrow> nat \<Rightarrow> region list" where
  "transfers off sz cnt = map (\<lambda>i. (off + i * sz, sz)) [0..<cnt]"

definition payload_regions :: "StreamParams \<Rightarrow> region list" where
  "payload_regions params =
     transfers 0 (unat (payload_size params)) (unat (payload_count params))
     @ (if payload_final1_size params \<noteq> 0
        then [(unat (payload_count params) * unat (payload_size params),
               unat (payload_final1_size params))] else [])
     @ (if payload_final2_size params \<noteq> 0
        then [(unat (payload_count params) * unat (payload_size params)
                 + unat (payload_final1_size params),
               unat (payload_final2_size params))] else [])"

text \<open>The total payload size, computed without wrap-around, fits \<^verbatim>\<open>size_t\<close>.\<close>

definition no_overflow :: "StreamParams \<Rightarrow> bool" where
  "no_overflow params \<longleftrightarrow>
     unat (payload_size params) * unat (payload_count params)
       + unat (payload_final1_size params) + unat (payload_final2_size params) < 2 ^ 64"

section \<open>The control handle and chunked reads, from the spec\<close>

text \<open>
  Modelled from the spec: \<^verbatim>\<open>ControlHandle\<close> is declared in ControlHandle.h, and its
  constructor and member functions are not in the source. The spec gives the handle the
  states CREATED, OPENED and CLOSED and a mutable connection configuration, provisional
  until \<^verbatim>\<open>open()\<close> has read the bootstrap registers. Of the device the model keeps the
  registers that the spec lists for the stream parameters: the maximum device response
  time of the ABRM (milliseconds), the maximum command and acknowledge lengths and the
  SIRM address of the SBRM, and the control bits and the sizes of the SIRM, all of them
  \<open>u32\<close> but the address, which is \<open>u64\<close>.
\<close>

datatype HandleState = CREATED | OPENED | CLOSED

record Device =
  abrm_maximum_device_response_time :: uint32_t
  sbrm_maximum_cmd_length :: uint32_t
  sbrm_maximum_ack_length :: uint32_t
  sbrm_sirm_address :: uint64_t
  sirm_control :: uint32_t
  sirm_maximum_leader_size :: uint32_t
  sirm_maximum_trailer_size :: uint32_t
  sirm_payload_transfer_size :: uint32_t
  sirm_payload_transfer_count :: uint32_t
  sirm_payload_final_transfer1_size :: uint32_t
  sirm_payload_final_transfer2_size :: uint32_t

record ControlHandle =
  state :: HandleState
  config :: ConnectionConfig
  device :: Device

text \<open>
  Modelled from the spec: a new session is in the state CREATED and holds the provisional
  configuration, which is what the constructor of \<^verbatim>\<open>ConnectionConfig\<close> builds; the
  values stay until \<^verbatim>\<open>open()\<close> has read the bootstrap registers.
\<close>

definition ControlHandle_ctor :: "Device \<Rightarrow> ControlHandle" where
  "ControlHandle_ctor dev = \<lparr>state = CREATED, config = ConnectionConfig_ctor, device = dev\<rparr>"

text \<open>
  Modelled from the spec: the accessors of \<^verbatim>\<open>Abrm\<close> and \<^verbatim>\<open>Sirm\<close> that
  \<^verbatim>\<open>from_control\<close> calls, on this handle. Each reads its register and leaves the handle
  as it was: the \<open>u32\<close> sizes widened to \<^verbatim>\<open>size_t\<close>, the response time in
  milliseconds, and the SIRM at the address that the SBRM reports.
\<close>

definition ControlHandle_registers :: "ControlHandle register_map" where
  "ControlHandle_registers =
     \<lparr>sbrm_sirm = (\<lambda>ctrl. (\<lparr>sirm_address = sbrm_sirm_address (device ctrl)\<rparr>, ctrl)),
      maximum_leader_size =
        (\<lambda>sirm ctrl. (ucast (sirm_maximum_leader_size (device ctrl)), ctrl)),
      maximum_trailer_size =
        (\<lambda>sirm ctrl. (ucast (sirm_maximum_trailer_size (device ctrl)), ctrl)),
      payload_transfer_size =
        (\<lambda>sirm ctrl. (ucast (sirm_payload_transfer_size (device ctrl)), ctrl)),
      payload_transfer_count =
        (\<lambda>sirm ctrl. (ucast (sirm_payload_transfer_count (device ctrl)), ctrl)),
      payload_final_transfer1_size =
        (\<lambda>sirm ctrl. (ucast (sirm_payload_final_transfer1_size (device ctrl)), ctrl)),
      payload_final_transfer2_size =
        (\<lambda>sirm ctrl. (ucast (sirm_payload_final_transfer2_size (device ctrl)), ctrl)),
      maximum_device_response_time =
        (\<lambda>ctrl. (seconds_of_milliseconds
                   (uint (abrm_maximum_device_response_time (device ctrl))), ctrl))\<rparr>"

subsection \<open>Chunked READMEM\<close>

text \<open>
  Modelled from the spec: the code that frames and chunks READMEM is not in the source.
  By the spec the acknowledge header takes 12 bytes; a range longer than
  \<open>maximum_ack_length - header_size\<close> is split into contiguous sub-reads, each with its
  own request id, the next value of a 16-bit counter that wraps; the results are
  concatenated in address order. Addresses are 64-bit. The spec does not say what happens
  when \<open>maximum_ack_length\<close> is at most the header size: the model issues no sub-read then.
\<close>

definition header_size :: nat where
  "header_size = 12"

record sub_read =
  sr_request_id :: uint16_t
  sr_address :: uint64_t
  sr_read_length :: nat

function READMEM_chunks :: "nat \<Rightarrow> uint16_t \<Rightarrow> uint64_t \<Rightarrow> nat \<Rightarrow> sub_read list" where
  "READMEM_chunks chunk rid a n =
     (if n = 0 \<or> chunk = 0 then []
      else
        let k = min chunk n in
        \<lparr>sr_request_id = rid, sr_address = a, sr_read_length = k\<rparr>
          # READMEM_chunks chunk (rid + 1) (a + of_nat k) (n - k))"
  by pat_completeness auto
termination
  by (relation "measure (\<lambda>(chunk, rid, a, n). n)") auto

definition READMEM_sub_reads :: "nat \<Rightarrow> uint16_t \<Rightarrow> uint64_t \<Rightarrow> nat \<Rightarrow> sub_read list" where
  "READMEM_sub_reads maximum_ack_len rid a n = READMEM_chunks (maximum_ack_len - header_size) rid a n"

text \<open>
  The device's memory is a function from the address to the byte. A single read of \<open>n\<close>
  bytes at \<open>a\<close> returns the bytes at \<open>a\<close>, \<open>a + 1\<close>, ...; the device answers a sub-read
  the same way, and the chunked read concatenates the answers.
\<close>

definition device_read :: "(uint64_t \<Rightarrow> uint8_t) \<Rightarrow> uint64_t \<Rightarrow> nat \<Rightarrow> uint8_t list" where
  "device_read mem a n = map (\<lambda>i. mem (a + of_nat i)) [0..<n]"

definition READMEM_chunked ::
  "(uint64_t \<Rightarrow> uint8_t) \<Rightarrow> nat \<Rightarrow> uint16_t \<Rightarrow> uint64_t \<Rightarrow> nat \<Rightarrow> uint8_t list" where
  "READMEM_chunked mem maximum_ack_len rid a n =
     concat (map (\<lambda>r. device_read mem (sr_address r) (sr_read_length r))
               (READMEM_sub_reads maximum_ack_len rid a n))"

definition sub_read_region :: "sub_read \<Rightarrow> region" where
  "sub_read_region r = (unat (sr_address r), sr_read_length r)"


section \<open>Numeric registers: the round trip of dumpBytes and ParseBytes\<close>

lemma sizeof_simps:
  "sizeof TYPE(8) = 1" "sizeof TYPE(16) = 2" "sizeof TYPE(32) = 4" "sizeof TYPE(64) = 8"
  by (simp_all add: sizeof_def)

lemma upt_4: "[0..<4] = [0, 1, 2, 3]"
  by (simp add: upt_rec)

lemma dump_fold_at:
  "fold (dumpBytes_step v) [0..<k] buf i = (if i < k then ucast (drop_bit (i * 8) v) else buf i)"
  by (induction k) (auto simp: dumpBytes_step_def)

lemma dump_signed_fold_at:
  "fold (dumpBytes_signed_step v) [0..<k] buf i =
     (if i < k then ucast (signed_drop_bit (i * 8) v) else buf i)"
  by (induction k) (auto simp: dumpBytes_signed_step_def)

lemma dumpBytes_at:
  "dumpBytes (x :: 'a::len word) buf i =
     (if i < sizeof TYPE('a) then ucast (drop_bit (i * 8) x) else buf i)"
  unfolding dumpBytes_def by (rule dump_fold_at)

lemma dumpBytes_signed_at:
  "dumpBytes_signed (x :: 'a::len word) buf i =
     (if i < sizeof TYPE('a) then ucast (signed_drop_bit (i * 8) x) else buf i)"
  unfolding dumpBytes_signed_def by (rule dump_signed_fold_at)

lemma byte_bit_bound: "bit (b :: 8 word) m \<Longrightarrow> m < 8"
  by (auto dest: bit_imp_le_length)

text \<open>Bit \<open>j\<close> of a byte shifted to position \<open>k\<close> is bit \<open>j mod 8\<close> of the byte, for the \<open>j\<close> of byte \<open>k\<close>.\<close>

lemma push_byte_bit:
  "bit (push_bit (8 * k) (ucast (b :: 8 word)) :: 'a::len word) j \<longleftrightarrow>
     j < LENGTH('a) \<and> j div 8 = k \<and> bit b (j mod 8)"
proof (cases "j div 8 = k")
  case True
  then have j: "j = 8 * k + j mod 8" by (metis mult_div_mod_eq)
  then have "8 * k \<le> j" "j - 8 * k = j mod 8" by linarith+
  then show ?thesis using True
    by (auto simp: bit_push_bit_iff bit_ucast_iff)
next
  case False
  have "\<not> (8 * k \<le> j \<and> bit b (j - 8 * k))"
  proof
    assume a: "8 * k \<le> j \<and> bit b (j - 8 * k)"
    then have "j - 8 * k < 8" using byte_bit_bound by blast
    with a have "j div 8 = k" by (auto simp: div_nat_eqI)
    with False show False by simp
  qed
  then show ?thesis using False
    by (auto simp: bit_push_bit_iff bit_ucast_iff)
qed

text \<open>The loop invariant of \<^verbatim>\<open>ParseBytes\<close>: after \<open>k\<close> rounds the result holds the first \<open>k\<close> bytes.\<close>

lemma parse_fold_bit:
  "bit (fold (ParseBytes_step bytes) [0..<k] (0::'a::len word)) j \<longleftrightarrow>
     j < LENGTH('a) \<and> j div 8 < k \<and> bit (bytes (j div 8)) (j mod 8)"
proof (induction k)
  case 0
  then show ?case by simp
next
  case (Suc k)
  define r :: "'a word" where "r = fold (ParseBytes_step bytes) [0..<k] 0"
  have "fold (ParseBytes_step bytes) [0..<Suc k] (0::'a word) = ParseBytes_step bytes k r"
    by (simp add: r_def)
  also have "\<dots> = r OR push_bit (8 * k) (ucast (bytes k))"
    by (rule ParseBytes_step_def)
  finally have "bit (fold (ParseBytes_step bytes) [0..<Suc k] (0::'a word)) j \<longleftrightarrow>
      bit r j \<or> (j < LENGTH('a) \<and> j div 8 = k \<and> bit (bytes k) (j mod 8))"
    by (simp only: bit_or_iff push_byte_bit)
  also have "bit r j \<longleftrightarrow> j < LENGTH('a) \<and> j div 8 < k \<and> bit (bytes (j div 8)) (j mod 8)"
    unfolding r_def by (rule Suc.IH)
  finally show ?case by (auto simp: less_Suc_eq)
qed

lemma ParseBytes_dumpBytes:
  assumes "8 dvd LENGTH('a::len)"
  shows "ParseBytes (dumpBytes (x :: 'a word) buf) = x"
proof (rule bit_word_eqI)
  fix j assume j: "j < LENGTH('a)"
  from assms j have d: "j div 8 < sizeof TYPE('a)"
    by (auto simp: sizeof_def elim!: dvdE)
  have "bit (ParseBytes (dumpBytes x buf) :: 'a word) j \<longleftrightarrow>
      bit (dumpBytes x buf (j div 8)) (j mod 8)"
    unfolding ParseBytes_def using j d by (simp only: parse_fold_bit simp_thms)
  also have "\<dots> \<longleftrightarrow> bit (ucast (drop_bit (j div 8 * 8) x) :: 8 word) (j mod 8)"
    using d by (simp only: dumpBytes_at if_True)
  also have "\<dots> \<longleftrightarrow> bit x j"
    by (simp add: bit_ucast_iff bit_drop_bit_eq)
  finally show "bit (ParseBytes (dumpBytes x buf) :: 'a word) j \<longleftrightarrow> bit x j" .
qed

lemma ParseBytes_dumpBytes_signed:
  assumes "8 dvd LENGTH('a::len)"
  shows "ParseBytes (dumpBytes_signed (x :: 'a word) buf) = x"
proof (rule bit_word_eqI)
  fix j assume j: "j < LENGTH('a)"
  from assms obtain n where n: "LENGTH('a) = 8 * n" by (auto elim: dvdE)
  from n j have d: "j div 8 < sizeof TYPE('a)" and dn: "j div 8 < n"
    by (auto simp: sizeof_def)
  have "j div 8 * 8 + 8 \<le> 8 * n" using dn by simp
  moreover have "j mod 8 < 8" by simp
  ultimately have k: "\<not> (LENGTH('a) - j div 8 * 8 \<le> j mod 8)" using n by linarith
  have "bit (ParseBytes (dumpBytes_signed x buf) :: 'a word) j \<longleftrightarrow>
      bit (dumpBytes_signed x buf (j div 8)) (j mod 8)"
    unfolding ParseBytes_def using j d by (simp only: parse_fold_bit simp_thms)
  also have "\<dots> \<longleftrightarrow> bit (ucast (signed_drop_bit (j div 8 * 8) x) :: 8 word) (j mod 8)"
    using d by (simp only: dumpBytes_signed_at if_True)
  also have "\<dots> \<longleftrightarrow> bit x j"
    using k by (simp add: bit_ucast_iff bit_signed_drop_bit_iff)
  finally show "bit (ParseBytes (dumpBytes_signed x buf) :: 'a word) j \<longleftrightarrow> bit x j" .
qed

text \<open>The other direction: dumping the parsed value over the bytes it was parsed from changes nothing.\<close>

lemma dumpBytes_ParseBytes:
  assumes "8 dvd LENGTH('a::len)"
  shows "dumpBytes (ParseBytes bytes :: 'a word) bytes = bytes"
proof (rule ext)
  fix i
  show "dumpBytes (ParseBytes bytes :: 'a word) bytes i = bytes i"
  proof (cases "i < sizeof TYPE('a)")
    case False
    then show ?thesis by (simp add: dumpBytes_at)
  next
    case True
    from assms obtain n where n: "LENGTH('a) = 8 * n" by (auto elim: dvdE)
    with True have i: "i < n" by (simp add: sizeof_def)
    have "ucast (drop_bit (i * 8) (ParseBytes bytes :: 'a word)) = bytes i"
    proof (rule bit_word_eqI)
      fix m assume m: "m < LENGTH(8)"
      then have m8: "m < 8" by simp
      have a: "(i * 8 + m) div 8 = i" "(i * 8 + m) mod 8 = m" using m8 by simp_all
      have b: "i * 8 + m < LENGTH('a)" using i m8 n by simp
      have "bit (ucast (drop_bit (i * 8) (ParseBytes bytes :: 'a word)) :: 8 word) m
          \<longleftrightarrow> bit (ParseBytes bytes :: 'a word) (i * 8 + m)"
        using m8 by (simp add: bit_ucast_iff bit_drop_bit_eq)
      also have "\<dots> \<longleftrightarrow> bit (bytes i) m"
        unfolding ParseBytes_def parse_fold_bit a using b True by simp
      finally show "bit (ucast (drop_bit (i * 8) (ParseBytes bytes :: 'a word)) :: 8 word) m
          \<longleftrightarrow> bit (bytes i) m" .
    qed
    with True show ?thesis by (simp add: dumpBytes_at)
  qed
qed

text \<open>Computing in the promoted type gives the same steps.\<close>

lemma ParseBytes_step_int_eq:
  assumes "LENGTH('a::len) \<le> 32"
  shows "ParseBytes_step_int is_signed bytes i (result :: 'a word) = ParseBytes_step bytes i result"
proof (rule bit_word_eqI)
  fix j assume j: "j < LENGTH('a)"
  with assms have j32: "j < 32" by simp
  have m: "min (j - 8 * i) (LENGTH('a) - Suc 0) = j - 8 * i" "min j (LENGTH('a) - Suc 0) = j"
    using j by simp_all
  show "bit (ParseBytes_step_int is_signed bytes i result) j \<longleftrightarrow> bit (ParseBytes_step bytes i result) j"
    using j j32 assms
    by (cases is_signed)
      (auto simp: ParseBytes_step_int_def ParseBytes_step_def Let_def bit_or_iff bit_ucast_iff
        bit_signed_iff bit_push_bit_iff m)
qed

lemma dumpBytes_step_int_eq:
  assumes "LENGTH('a::len) \<le> 32" "i * 8 + 8 \<le> LENGTH('a)"
  shows "dumpBytes_step_int is_signed (v :: 'a word) i buf =
     (if is_signed then dumpBytes_signed_step v i buf else dumpBytes_step v i buf)"
proof -
  have u: "(ucast (drop_bit (i * 8) (ucast v :: 32 word)) :: 8 word) = ucast (drop_bit (i * 8) v)"
  proof (rule bit_word_eqI)
    fix m assume "m < LENGTH(8)"
    then have "m < 8" by simp
    with assms have l: "i * 8 + m < LENGTH('a)" by simp
    with assms have "i * 8 + m < 32" by simp
    with l show "bit (ucast (drop_bit (i * 8) (ucast v :: 32 word)) :: 8 word) m
        \<longleftrightarrow> bit (ucast (drop_bit (i * 8) v) :: 8 word) m"
      using \<open>m < 8\<close> by (simp add: bit_ucast_iff bit_drop_bit_eq)
  qed
  have s: "(ucast (signed_drop_bit (i * 8) (scast v :: 32 word)) :: 8 word)
      = ucast (signed_drop_bit (i * 8) v)"
  proof (rule bit_word_eqI)
    fix m assume "m < LENGTH(8)"
    then have m: "m < 8" by simp
    with assms have l: "i * 8 + m < LENGTH('a)" by simp
    with assms have l32: "i * 8 + m < 32" by simp
    have a: "\<not> (32 - i * 8 \<le> m)" using l32 by simp
    have b: "\<not> (LENGTH('a) - i * 8 \<le> m)" using l by simp
    have c: "min (i * 8 + m) (LENGTH('a) - Suc 0) = i * 8 + m" using l by simp
    show "bit (ucast (signed_drop_bit (i * 8) (scast v :: 32 word)) :: 8 word) m
        \<longleftrightarrow> bit (ucast (signed_drop_bit (i * 8) v) :: 8 word) m"
      using m l l32 a b
      by (simp add: bit_ucast_iff bit_signed_drop_bit_iff bit_signed_iff c)
  qed
  show ?thesis by (simp add: dumpBytes_step_int_def dumpBytes_step_def dumpBytes_signed_step_def u s)
qed

text \<open>The least significant byte comes first.\<close>

lemma dumpBytes_uint32_bytes:
  "map (dumpBytes (x :: uint32_t) buf) [0..<4] =
     [ucast x, ucast (drop_bit 8 x), ucast (drop_bit 16 x), ucast (drop_bit 24 x)]"
  by (simp add: dumpBytes_def sizeof_simps upt_4 dumpBytes_step_def)

text \<open>
  Claim C1. For a value \<open>x\<close> of an integral type of 8, 16, 32 or 64 bits, \<^verbatim>\<open>dumpBytes\<close>
  into a buffer followed by \<^verbatim>\<open>ParseBytes\<close> of that buffer gives \<open>x\<close> again, for the
  unsigned types (logical shift) and the signed ones (arithmetic shift), whatever the
  buffer held before. The byte order is little-endian in both directions: the 32-bit
  value \<open>0x12345678\<close> is dumped as \<open>78 56 34 12\<close>, and these bytes parse to it.
\<close>

theorem numeric_roundtrip:
  "ParseBytes (dumpBytes (x8 :: 8 word) buf) = x8 \<and>
   ParseBytes (dumpBytes (x16 :: 16 word) buf) = x16 \<and>
   ParseBytes (dumpBytes (x32 :: 32 word) buf) = x32 \<and>
   ParseBytes (dumpBytes (x64 :: 64 word) buf) = x64 \<and>
   ParseBytes (dumpBytes_signed x8 buf) = x8 \<and>
   ParseBytes (dumpBytes_signed x16 buf) = x16 \<and>
   ParseBytes (dumpBytes_signed x32 buf) = x32 \<and>
   ParseBytes (dumpBytes_signed x64 buf) = x64 \<and>
   map (dumpBytes (0x12345678 :: 32 word) buf) [0..<4] = [0x78, 0x56, 0x34, 0x12] \<and>
   ParseBytes (array_of [0x78, 0x56, 0x34, 0x12]) = (0x12345678 :: 32 word)"
proof -
  have u: "ParseBytes (dumpBytes x8 buf) = x8" "ParseBytes (dumpBytes x16 buf) = x16"
    "ParseBytes (dumpBytes x32 buf) = x32" "ParseBytes (dumpBytes x64 buf) = x64"
    by (rule ParseBytes_dumpBytes, simp)+
  have s: "ParseBytes (dumpBytes_signed x8 buf) = x8" "ParseBytes (dumpBytes_signed x16 buf) = x16"
    "ParseBytes (dumpBytes_signed x32 buf) = x32" "ParseBytes (dumpBytes_signed x64 buf) = x64"
    by (rule ParseBytes_dumpBytes_signed, simp)+
  have d: "map (dumpBytes (0x12345678 :: 32 word) buf) [0..<4] = [0x78, 0x56, 0x34, 0x12]"
    by (simp add: dumpBytes_uint32_bytes)
  have p: "ParseBytes (array_of [0x78, 0x56, 0x34, 0x12]) = (0x12345678 :: 32 word)"
    by (simp add: ParseBytes_def sizeof_simps upt_4 ParseBytes_step_def array_of_def)
  from u s d p show ?thesis by (intro conjI)
qed

section \<open>The BusSpeed parser\<close>

lemma parse_bytes_uint32_eq: "parse_bytes_uint32 bytes = ParseBytes bytes"
  by (simp add: parse_bytes_uint32_def ParseBytes_def sizeof_simps upt_4 ParseBytes_step_def)

lemma parse_bytes_uint32_dumpBytes: "parse_bytes_uint32 (dumpBytes (raw :: uint32_t) buf) = raw"
  unfolding parse_bytes_uint32_eq by (rule ParseBytes_dumpBytes) simp

text \<open>Every four bytes are the little-endian dump of the 32-bit value that they parse to.\<close>

lemma bytes_are_dump_of_parse: "dumpBytes (parse_bytes_uint32 bytes) bytes = bytes"
  unfolding parse_bytes_uint32_eq by (rule dumpBytes_ParseBytes) simp

text \<open>
  Claim C2. Applied to the four little-endian bytes of a 32-bit value, the BusSpeed
  parser returns LowSpeed for 0x1, FullSpeed for 0x2, HighSpeed for 0x4, SuperSpeed for
  0x8 and SuperSpeedPlus for 0x10, so that each of the five speeds is the result for the
  value of its enumerator; for every other 32-bit value it throws the \<^verbatim>\<open>ControlError\<close>
  whose message reads "invalid bus speed defined" and returns no speed.
\<close>

theorem parse_bytes_BusSpeed_table:
  "parse_bytes_BusSpeed (dumpBytes (0x1 :: uint32_t) buf) = Inr LowSpeed \<and>
   parse_bytes_BusSpeed (dumpBytes (0x2 :: uint32_t) buf) = Inr FullSpeed \<and>
   parse_bytes_BusSpeed (dumpBytes (0x4 :: uint32_t) buf) = Inr HighSpeed \<and>
   parse_bytes_BusSpeed (dumpBytes (0x8 :: uint32_t) buf) = Inr SuperSpeed \<and>
   parse_bytes_BusSpeed (dumpBytes (0x10 :: uint32_t) buf) = Inr SuperSpeedPlus \<and>
   parse_bytes_BusSpeed (dumpBytes (ucast (BusSpeed_value speed) :: uint32_t) buf) = Inr speed \<and>
   (raw \<noteq> 0x1 \<and> raw \<noteq> 0x2 \<and> raw \<noteq> 0x4 \<and> raw \<noteq> 0x8 \<and> raw \<noteq> 0x10 \<longrightarrow>
      parse_bytes_BusSpeed (dumpBytes (raw :: uint32_t) buf)
        = Inl (ControlError_what ''invalid bus speed defined''))"
  by (cases speed) (simp_all add: parse_bytes_BusSpeed_def parse_bytes_uint32_dumpBytes)

theorem parse_bytes_BusSpeed_table_witness:
  "(3 :: uint32_t) \<noteq> 0x1 \<and> (3 :: uint32_t) \<noteq> 0x2 \<and> (3 :: uint32_t) \<noteq> 0x4 \<and>
   (3 :: uint32_t) \<noteq> 0x8 \<and> (3 :: uint32_t) \<noteq> 0x10 \<and>
   parse_bytes_BusSpeed (dumpBytes (3 :: uint32_t) (array_of []))
     = Inl (ControlError_what ''invalid bus speed defined'')"
  using parse_bytes_BusSpeed_table [of "array_of []" LowSpeed 3] by simp

section \<open>Camera enumeration\<close>

lemma enumerateCameras_loop_eq:
  "enumerateCameras_loop usb devs cams = cams @ map (camera_of usb) (filter (usable usb) devs)"
  by (induction devs arbitrary: cams) (simp_all add: usable_def camera_of_def Let_def)

text \<open>
  Claim C3. Camera enumeration returns one camera for each enumerated device whose
  control handle and stream handle are both valid, in the order of enumeration, and
  nothing for the other devices; the result is a plain sequence, so that a device that
  cannot be opened produces no error; with no device the result is empty.
\<close>

theorem enumerateCameras_filter:
  "enumerateCameras usb = map (camera_of usb) (filter (usable usb) (enumerateDevices usb)) \<and>
   enumerateCameras (usb\<lparr>enumerateDevices := []\<rparr>) = []"
  by (simp add: enumerateCameras_def enumerateCameras_loop_eq)

section \<open>Error conversion\<close>

text \<open>
  Claim C4, as stated, fails: an \<open>InvalidPacket\<close> error is converted to the kind \<open>Io\<close>,
  not to a kind \<open>InvalidPacket\<close>.
\<close>

theorem InvalidPacket_converts_to_Io:
  "ControlError_type (convertToControlError
     \<lparr>type = ErrorType.InvalidPacket, what = ''request_id mismatch'', libusb_error = 0\<rparr>)
     = ControlErrorType.Io \<and>
   ControlError_type (convertToControlError
     \<lparr>type = ErrorType.InvalidPacket, what = ''request_id mismatch'', libusb_error = 0\<rparr>)
     \<noteq> ControlErrorType.InvalidPacket"
  by (simp add: convertToControlError_def)

text \<open>
  Claim C4, amended. The conversion maps the transport failures \<open>LibUsb\<close> and \<open>BufferIo\<close>
  and, with them, \<open>InvalidPacket\<close> to the kind \<open>Io\<close>, keeping the message of the error;
  it maps \<open>InvalidDevice\<close> to the kind \<open>InvalidDevice\<close> with the message "invalid device".
\<close>

theorem convertToControlError_cases:
  "convertToControlError \<lparr>type = ErrorType.LibUsb, what = w, libusb_error = e\<rparr>
     = ControlError ControlErrorType.Io w \<and>
   convertToControlError \<lparr>type = ErrorType.BufferIo, what = w, libusb_error = e\<rparr>
     = ControlError ControlErrorType.Io w \<and>
   convertToControlError \<lparr>type = ErrorType.InvalidPacket, what = w, libusb_error = e\<rparr>
     = ControlError ControlErrorType.Io w \<and>
   convertToControlError \<lparr>type = ErrorType.InvalidDevice, what = w, libusb_error = e\<rparr>
     = ControlError ControlErrorType.InvalidDevice ''invalid device''"
  by (simp add: convertToControlError_def)

section \<open>The initial connection configuration\<close>

text \<open>
  Claim C8. A freshly constructed \<^verbatim>\<open>ConnectionConfig\<close> has the timeout of the initial
  500 ms (half a second), the retry count 3 and the initial maximum command and
  acknowledge lengths of 128 bytes, and a new control handle session holds this
  configuration.
\<close>

theorem ConnectionConfig_initial:
  "timeout_duration ConnectionConfig_ctor = seconds_of_milliseconds 500 \<and>
   timeout_duration ConnectionConfig_ctor = 1 / 2 \<and>
   retry_count ConnectionConfig_ctor = 3 \<and>
   maximum_cmd_length ConnectionConfig_ctor = 128 \<and>
   maximum_ack_length ConnectionConfig_ctor = 128 \<and>
   INITIAL_TIMEOUT_DURATION = 500 \<and>
   INITIAL_MAXIMUM_CMD_LENGTH = 128 \<and>
   INITIAL_MAXIMUM_ACK_LENGTH = 128 \<and>
   config (ControlHandle_ctor dev) = ConnectionConfig_ctor \<and>
   state (ControlHandle_ctor dev) = CREATED"
  by (simp add: ConnectionConfig_ctor_def seconds_of_milliseconds_def
      INITIAL_TIMEOUT_DURATION_def INITIAL_MAXIMUM_CMD_LENGTH_def
      INITIAL_MAXIMUM_ACK_LENGTH_def ControlHandle_ctor_def)

section \<open>The shared handle delegates\<close>

lemma locked_ctor:
  "locked f (SharedControlHandle_ctor h) = Some (fst (f h), SharedControlHandle_ctor (snd (f h)))"
  by (simp add: locked_def lock_guard_def unlock_def SharedControlHandle_ctor_def
      split: prod.splits)

lemma locked_const_ctor:
  "locked_const f (SharedControlHandle_ctor h) = Some (f h, SharedControlHandle_ctor h)"
  by (simp add: locked_const_def lock_guard_def unlock_def SharedControlHandle_ctor_def)

lemma locked_void_ctor:
  "locked_void f (SharedControlHandle_ctor h) = Some (SharedControlHandle_ctor (f h))"
  by (simp add: locked_void_def lock_guard_def unlock_def SharedControlHandle_ctor_def)

text \<open>
  Claim C9. In a single thread, where the mutex is free when a member function is
  entered, every member function of \<^verbatim>\<open>SharedControlHandle\<close> around a handle \<open>h\<close> returns,
  returns the result of the same member function of \<open>h\<close>, and leaves a shared handle
  around the handle that this member function leaves, its mutex free again. This holds
  for each of the fifteen operations of the interface, every implementation \<open>dc\<close> of
  them and every argument.
\<close>

theorem SharedControlHandle_delegates:
  "SharedControlHandle_buffer_capacity dc (SharedControlHandle_ctor h)
     = Some (dc_buffer_capacity dc h, SharedControlHandle_ctor h) \<and>
   SharedControlHandle_resize_buffer dc sz (SharedControlHandle_ctor h)
     = Some (SharedControlHandle_ctor (dc_resize_buffer dc sz h)) \<and>
   SharedControlHandle_timeout_duration dc (SharedControlHandle_ctor h)
     = Some (dc_timeout_duration dc h, SharedControlHandle_ctor h) \<and>
   SharedControlHandle_set_timeout_duration dc duration (SharedControlHandle_ctor h)
     = Some (SharedControlHandle_ctor (dc_set_timeout_duration dc duration h)) \<and>
   SharedControlHandle_retry_count dc (SharedControlHandle_ctor h)
     = Some (dc_retry_count dc h, SharedControlHandle_ctor h) \<and>
   SharedControlHandle_set_retry_count dc count (SharedControlHandle_ctor h)
     = Some (SharedControlHandle_ctor (dc_set_retry_count dc count h)) \<and>
   SharedControlHandle_device_info dc (SharedControlHandle_ctor h)
     = Some (dc_device_info dc h, SharedControlHandle_ctor h) \<and>
   SharedControlHandle_is_opened dc (SharedControlHandle_ctor h)
     = Some (dc_is_opened dc h, SharedControlHandle_ctor h) \<and>
   SharedControlHandle_open dc (SharedControlHandle_ctor h)
     = Some (fst (dc_open dc h), SharedControlHandle_ctor (snd (dc_open dc h))) \<and>
   SharedControlHandle_close dc (SharedControlHandle_ctor h)
     = Some (fst (dc_close dc h), SharedControlHandle_ctor (snd (dc_close dc h))) \<and>
   SharedControlHandle_read dc address buf (SharedControlHandle_ctor h)
     = Some (fst (dc_read dc address buf h),
             SharedControlHandle_ctor (snd (dc_read dc address buf h))) \<and>
   SharedControlHandle_write dc address data (SharedControlHandle_ctor h)
     = Some (fst (dc_write dc address data h),
             SharedControlHandle_ctor (snd (dc_write dc address data h))) \<and>
   SharedControlHandle_genapi dc (SharedControlHandle_ctor h)
     = Some (fst (dc_genapi dc h), SharedControlHandle_ctor (snd (dc_genapi dc h))) \<and>
   SharedControlHandle_enable_streaming dc (SharedControlHandle_ctor h)
     = Some (fst (dc_enable_streaming dc h),
             SharedControlHandle_ctor (snd (dc_enable_streaming dc h))) \<and>
   SharedControlHandle_disable_streaming dc (SharedControlHandle_ctor h)
     = Some (fst (dc_disable_streaming dc h),
             SharedControlHandle_ctor (snd (dc_disable_streaming dc h)))"
  unfolding SharedControlHandle_buffer_capacity_def SharedControlHandle_resize_buffer_def
    SharedControlHandle_timeout_duration_def SharedControlHandle_set_timeout_duration_def
    SharedControlHandle_retry_count_def SharedControlHandle_set_retry_count_def
    SharedControlHandle_device_info_def SharedControlHandle_is_opened_def
    SharedControlHandle_open_def SharedControlHandle_close_def SharedControlHandle_read_def
    SharedControlHandle_write_def SharedControlHandle_genapi_def
    SharedControlHandle_enable_streaming_def SharedControlHandle_disable_streaming_def
  by (simp only: locked_ctor locked_const_ctor locked_void_ctor simp_thms)


section \<open>String registers\<close>

lemma unat_of_char: "unat (of_char c :: 8 word) = of_char c"
proof -
  have "(of_char c :: 8 word) = of_nat (of_char c)" by (simp only: of_nat_of_char)
  then have "unat (of_char c :: 8 word) = (of_char c :: nat) mod 2 ^ 8" by (simp add: unat_of_nat)
  moreover have "(of_char c :: nat) < 2 ^ 8" by simp
  ultimately show ?thesis by simp
qed

lemma char_of_unat_of_char: "char_of (unat (of_char c :: 8 word)) = c"
  by (simp add: unat_of_char)

lemma of_char_eq_0_iff: "(of_char c :: 8 word) = 0 \<longleftrightarrow> c = CHR 0x00"
proof
  assume "(of_char c :: 8 word) = 0"
  then have "unat (of_char c :: 8 word) = 0" by simp
  then have "(of_char c :: nat) = 0" by (simp add: unat_of_char)
  then have "(of_char c :: nat) = of_char (CHR 0x00)" by simp
  then show "c = CHR 0x00" by (simp only: of_char_eq_iff)
next
  assume "c = CHR 0x00" then show "(of_char c :: 8 word) = 0" by simp
qed

lemma takeWhile_append_stop:
  "ys = [] \<or> \<not> P (hd ys) \<Longrightarrow> takeWhile P (xs @ ys) = takeWhile P xs"
  by (induction xs) (cases ys; auto)+

text \<open>
  The slot after a dump that fits: the bytes of the string, then, if there is room, one
  zero byte and the bytes that the buffer held before.
\<close>

lemma slot_dump:
  assumes "length str \<le> W"
  shows "slot (snd (dumpBytes_string str buf W)) W =
     c_str str @ (if length str < W then 0 # map buf [Suc (length str)..<W] else [])"
proof (rule nth_equalityI)
  show "length (slot (snd (dumpBytes_string str buf W)) W) =
    length (c_str str @ (if length str < W then 0 # map buf [Suc (length str)..<W] else []))"
    using assms by (auto simp: slot_def c_str_def)
next
  fix i assume "i < length (slot (snd (dumpBytes_string str buf W)) W)"
  then have i: "i < W" by (simp add: slot_def)
  consider "i < length str" | "i = length str" | "i > length str" by linarith
  then show "slot (snd (dumpBytes_string str buf W)) W ! i =
    (c_str str @ (if length str < W then 0 # map buf [Suc (length str)..<W] else [])) ! i"
  proof cases
    case 1
    then show ?thesis using assms i
      by (simp add: slot_def dumpBytes_string_def memcpy_def Let_def c_str_def nth_append)
  next
    case 2
    then show ?thesis using assms i
      by (simp add: slot_def dumpBytes_string_def memcpy_def Let_def c_str_def nth_append)
  next
    case 3
    then show ?thesis using assms i
      by (auto simp: slot_def dumpBytes_string_def memcpy_def Let_def c_str_def nth_append
          nth_Cons')
  qed
qed

lemma raw_dump:
  assumes "length str \<le> W"
  shows "takeWhile (\<lambda>b. b \<noteq> 0) (slot (snd (dumpBytes_string str buf W)) W)
     = c_str (takeWhile (\<lambda>c. c \<noteq> CHR 0x00) str)"
proof -
  have "takeWhile (\<lambda>b. b \<noteq> 0) (slot (snd (dumpBytes_string str buf W)) W)
      = takeWhile (\<lambda>b. b \<noteq> 0) (c_str str)"
    unfolding slot_dump [OF assms] by (rule takeWhile_append_stop) simp
  also have "\<dots> = c_str (takeWhile (\<lambda>c. c \<noteq> CHR 0x00) str)"
    by (simp add: c_str_def takeWhile_map comp_def of_char_eq_0_iff)
  finally show ?thesis .
qed

lemma text_of_c_str: "text_of (c_str str) = str"
  by (simp add: text_of_def c_str_def comp_def char_of_unat_of_char)

lemma ascii_lossy_c_str:
  "list_all (\<lambda>b. b < 0x80) (c_str str) \<Longrightarrow> ascii_lossy replacement (c_str str) = str"
  by (induction str) (simp_all add: ascii_lossy_def c_str_def char_of_unat_of_char)

lemma no_zero_takeWhile: "CHR 0x00 \<notin> set str \<Longrightarrow> takeWhile (\<lambda>c. c \<noteq> CHR 0x00) str = str"
  by (auto simp: takeWhile_eq_all_conv)

lemma ascii_lossy_c_str_Nil: "ascii_lossy replacement (c_str []) = []"
  by (simp add: ascii_lossy_def c_str_def)

lemma ascii_lossy_c_str_Cons:
  "ascii_lossy replacement (c_str (c # cs)) =
     (if (of_char c :: uint8_t) < 0x80 then [c] else replacement)
       @ ascii_lossy replacement (c_str cs)"
  by (simp add: ascii_lossy_def c_str_def char_of_unat_of_char)

text \<open>
  Whatever the replacement is, the two bytes \<open>FF\<close>, \<open>80\<close> dumped into a slot of two bytes
  or more are not decoded back to themselves as ASCII.
\<close>

lemma invalid_bytes_not_recovered:
  "parse_string False replacement
     (snd (dumpBytes_string [CHR 0xFF, CHR 0x80] buf (Suc (Suc W)))) (Suc (Suc W))
     \<noteq> Some [CHR 0xFF, CHR 0x80]"
proof
  assume a: "parse_string False replacement
     (snd (dumpBytes_string [CHR 0xFF, CHR 0x80] buf (Suc (Suc W)))) (Suc (Suc W))
     = Some [CHR 0xFF, CHR 0x80]"
  have "parse_string False replacement
     (snd (dumpBytes_string [CHR 0xFF, CHR 0x80] buf (Suc (Suc W)))) (Suc (Suc W))
     = Some (replacement @ replacement)"
    by (simp add: parse_string_def raw_dump ascii_lossy_c_str_Cons ascii_lossy_c_str_Nil)
  with a have e: "replacement @ replacement = [CHR 0xFF, CHR 0x80]" by simp
  then have "length replacement + length replacement = 2"
    by (metis length_append length_Cons list.size(3) numeral_2_eq_2)
  then have "length replacement = 1" by simp
  then obtain c where r: "replacement = [c]" by (cases replacement) auto
  from e show False unfolding r by auto
qed

text \<open>
  Claim C7, as stated, fails for a string that is not text of the register's encoding
  without a zero byte. The three bytes \<open>a\<close>, \<open>0\<close>, \<open>b\<close> fit a slot of 8 bytes and are
  dumped without error, and decoding the slot gives the one-byte string \<open>a\<close>, in ASCII
  and in UTF-8. The two bytes \<open>FF\<close>, \<open>80\<close> hold no zero byte and are dumped without
  error; decoding the slot as ASCII gives two replacements, and they are not UTF-8.
\<close>

theorem string_not_recovered:
  "length [CHR ''a'', CHR 0x00, CHR ''b''] \<le> 8 \<and>
   fst (dumpBytes_string [CHR ''a'', CHR 0x00, CHR ''b''] (array_of []) 8) = None \<and>
   parse_string False ''?'' (snd (dumpBytes_string [CHR ''a'', CHR 0x00, CHR ''b''] (array_of []) 8)) 8
     = Some ''a'' \<and>
   parse_string True ''?'' (snd (dumpBytes_string [CHR ''a'', CHR 0x00, CHR ''b''] (array_of []) 8)) 8
     = Some ''a'' \<and>
   CHR 0x00 \<notin> set [CHR 0xFF, CHR 0x80] \<and>
   fst (dumpBytes_string [CHR 0xFF, CHR 0x80] (array_of []) 8) = None \<and>
   parse_string False ''?'' (snd (dumpBytes_string [CHR 0xFF, CHR 0x80] (array_of []) 8)) 8
     = Some ''??'' \<and>
   parse_string True ''?'' (snd (dumpBytes_string [CHR 0xFF, CHR 0x80] (array_of []) 8)) 8
     = None"
proof -
  have d: "fst (dumpBytes_string [CHR ''a'', CHR 0x00, CHR ''b''] (array_of []) 8) = None"
    "fst (dumpBytes_string [CHR 0xFF, CHR 0x80] (array_of []) 8) = None"
    by (simp_all add: dumpBytes_string_def)
  have v: "valid_utf8 (c_str ''a'')" "\<not> valid_utf8 (c_str [CHR 0xFF, CHR 0x80])"
    by (simp_all add: c_str_def)
  show ?thesis
    using d v
    by (simp add: parse_string_def raw_dump text_of_c_str ascii_lossy_c_str_Cons
        ascii_lossy_c_str_Nil)
qed

text \<open>
  Claim C7, amended. For a string \<open>str\<close> and a slot of \<open>W\<close> bytes: if \<open>str\<close> is longer
  than \<open>W\<close>, the dump throws "too large string" and leaves the buffer as it was. If not,
  the dump throws nothing, the slot starts with the bytes of \<open>str\<close>, and a zero byte
  follows them whenever \<open>str\<close> is shorter than \<open>W\<close>; decoding the slot as ASCII gives
  the bytes of \<open>str\<close> before its first zero byte, those from \<open>0x80\<close> on replaced. So
  decoding recovers \<open>str\<close> if it holds no zero byte and is text of the register's
  encoding: bytes below \<open>0x80\<close> for an ASCII register, well-formed UTF-8 for a UTF-8
  register.
\<close>

theorem dumpBytes_string_slot:
  "(length str > W \<longrightarrow>
      dumpBytes_string str buf W = (Some (runtime_error ''too large string''), buf)) \<and>
   (length str \<le> W \<longrightarrow>
      fst (dumpBytes_string str buf W) = None \<and>
      take (length str) (slot (snd (dumpBytes_string str buf W)) W) = c_str str \<and>
      (length str < W \<longrightarrow> snd (dumpBytes_string str buf W) (length str) = 0) \<and>
      parse_string False replacement (snd (dumpBytes_string str buf W)) W
        = Some (ascii_lossy replacement (c_str (takeWhile (\<lambda>c. c \<noteq> CHR 0x00) str))) \<and>
      (CHR 0x00 \<notin> set str \<and> list_all (\<lambda>b. b < 0x80) (c_str str) \<longrightarrow>
         parse_string False replacement (snd (dumpBytes_string str buf W)) W = Some str) \<and>
      (CHR 0x00 \<notin> set str \<and> valid_utf8 (c_str str) \<longrightarrow>
         parse_string True replacement (snd (dumpBytes_string str buf W)) W = Some str))"
proof (cases "length str > W")
  case True
  then show ?thesis by (simp add: dumpBytes_string_def)
next
  case False
  then have le: "length str \<le> W" by simp
  have "fst (dumpBytes_string str buf W) = None"
    using le by (simp add: dumpBytes_string_def Let_def)
  moreover have "take (length str) (slot (snd (dumpBytes_string str buf W)) W) = c_str str"
    unfolding slot_dump [OF le] by (simp add: c_str_def)
  moreover have "length str < W \<longrightarrow> snd (dumpBytes_string str buf W) (length str) = 0"
    by (simp add: dumpBytes_string_def Let_def)
  moreover have "parse_string False replacement (snd (dumpBytes_string str buf W)) W
      = Some (ascii_lossy replacement (c_str (takeWhile (\<lambda>c. c \<noteq> CHR 0x00) str)))"
    by (simp add: parse_string_def raw_dump [OF le])
  moreover have "CHR 0x00 \<notin> set str \<and> list_all (\<lambda>b. b < 0x80) (c_str str) \<longrightarrow>
      parse_string False replacement (snd (dumpBytes_string str buf W)) W = Some str"
    by (simp add: parse_string_def raw_dump [OF le] no_zero_takeWhile ascii_lossy_c_str)
  moreover have "CHR 0x00 \<notin> set str \<and> valid_utf8 (c_str str) \<longrightarrow>
      parse_string True replacement (snd (dumpBytes_string str buf W)) W = Some str"
    by (simp add: parse_string_def raw_dump [OF le] no_zero_takeWhile text_of_c_str)
  ultimately show ?thesis using False le by simp
qed

theorem dumpBytes_string_slot_witness:
  "length ''cameleon'' > 4 \<and>
   dumpBytes_string ''cameleon'' (array_of []) 4
     = (Some (runtime_error ''too large string''), array_of []) \<and>
   length ''cameleon'' \<le> 12 \<and> length ''cameleon'' < 12 \<and> CHR 0x00 \<notin> set ''cameleon'' \<and>
   list_all (\<lambda>b. b < 0x80) (c_str ''cameleon'') \<and> valid_utf8 (c_str ''cameleon'') \<and>
   fst (dumpBytes_string ''cameleon'' (array_of []) 12) = None \<and>
   snd (dumpBytes_string ''cameleon'' (array_of []) 12) (length ''cameleon'') = 0 \<and>
   parse_string False ''?'' (snd (dumpBytes_string ''cameleon'' (array_of []) 12)) 12
     = Some ''cameleon'' \<and>
   parse_string True ''?'' (snd (dumpBytes_string ''cameleon'' (array_of []) 12)) 12
     = Some ''cameleon''"
proof -
  have a: "list_all (\<lambda>b. b < 0x80) (c_str ''cameleon'')" "valid_utf8 (c_str ''cameleon'')"
    by (simp_all add: c_str_def)
  show ?thesis
    using a dumpBytes_string_slot [of 4 "''cameleon''" "array_of []" "''?''"]
      dumpBytes_string_slot [of 12 "''cameleon''" "array_of []" "''?''"]
    by (simp add: ascii_lossy_c_str)
qed

section \<open>A device without SIRM\<close>






section \<open>Contiguous regions\<close>

lemma total_length_append: "total_length (xs @ ys) = total_length xs + total_length ys"
  by (simp add: total_length_def)

lemma contiguous_from_append:
  "contiguous_from off (xs @ ys) \<longleftrightarrow>
     contiguous_from off xs \<and> contiguous_from (off + total_length xs) ys"
  by (induction xs arbitrary: off) (auto simp: total_length_def add.assoc)

lemma contiguous_starts:
  "contiguous_from off rs \<Longrightarrow> list_all (\<lambda>r. off \<le> fst r) rs"
proof (induction rs arbitrary: off)
  case Nil
  then show ?case by simp
next
  case (Cons r rs)
  then have "list_all (\<lambda>s. off + snd r \<le> fst s) rs" by simp
  then have "list_all (\<lambda>s. off \<le> fst s) rs"
    by (auto simp: list_all_iff)
  with Cons.prems show ?case by simp
qed

lemma total_length_Cons: "total_length (r # rs) = snd r + total_length rs"
  by (simp add: total_length_def)

lemma contiguous_within:
  "contiguous_from off rs \<Longrightarrow> list_all (region_within (off + total_length rs)) rs"
proof (induction rs arbitrary: off)
  case Nil
  then show ?case by simp
next
  case (Cons r rs)
  from Cons.prems have c: "contiguous_from (off + snd r) rs" and r: "fst r = off" by simp_all
  have "list_all (region_within (off + snd r + total_length rs)) rs"
    by (rule Cons.IH [OF c])
  moreover have "region_within (off + snd r + total_length rs) r"
    using r by (simp add: region_within_def)
  ultimately show ?case by (simp add: total_length_Cons add.assoc)
qed

lemma contiguous_disjoint:
  "contiguous_from off rs \<Longrightarrow> pairwise_disjoint rs"
proof (induction rs arbitrary: off)
  case Nil
  then show ?case by simp
next
  case (Cons r rs)
  from Cons.prems have c: "contiguous_from (off + snd r) rs" and r: "fst r = off" by simp_all
  from contiguous_starts [OF c] r have "list_all (regions_disjoint r) rs"
    by (auto simp: list_all_iff regions_disjoint_def)
  with Cons.IH [OF c] show ?case by simp
qed

lemma region_within_mono: "list_all (region_within m) rs \<Longrightarrow> m \<le> n \<Longrightarrow> list_all (region_within n) rs"
  by (auto simp: list_all_iff region_within_def)


section \<open>Chunked READMEM\<close>

declare READMEM_chunks.simps [simp del]

lemma READMEM_chunks_done: "READMEM_chunks chunk rid a 0 = []"
  by (simp add: READMEM_chunks.simps)

lemma READMEM_chunks_step:
  "n \<noteq> 0 \<Longrightarrow> chunk \<noteq> 0 \<Longrightarrow>
   READMEM_chunks chunk rid a n =
     \<lparr>sr_request_id = rid, sr_address = a, sr_read_length = min chunk n\<rparr>
       # READMEM_chunks chunk (rid + 1) (a + of_nat (min chunk n)) (n - min chunk n)"
  by (subst READMEM_chunks.simps) (simp add: Let_def)

lemma device_read_Suc:
  "device_read mem a (Suc n) = device_read mem a n @ [mem (a + of_nat n)]"
  by (simp add: device_read_def)

lemma device_read_append:
  "device_read mem a (k + m) = device_read mem a k @ device_read mem (a + of_nat k) m"
proof (induction m)
  case 0
  then show ?case by (simp add: device_read_def)
next
  case (Suc m)
  have "device_read mem a (k + Suc m) = device_read mem a (k + m) @ [mem (a + of_nat (k + m))]"
    by (simp add: device_read_Suc)
  also have "\<dots> = device_read mem a k @ device_read mem (a + of_nat k) m
      @ [mem (a + of_nat k + of_nat m)]"
    by (simp add: Suc.IH add.assoc)
  also have "\<dots> = device_read mem a k @ device_read mem (a + of_nat k) (Suc m)"
    by (simp add: device_read_Suc)
  finally show ?case .
qed

text \<open>The answers to the sub-reads, one behind the other, are the answer to the single read.\<close>

lemma chunks_concat:
  "0 < chunk \<Longrightarrow>
   concat (map (\<lambda>r. device_read mem (sr_address r) (sr_read_length r))
             (READMEM_chunks chunk rid a n))
     = device_read mem a n"
proof (induction chunk rid a n rule: READMEM_chunks.induct)
  case (1 chunk rid a n)
  show ?case
  proof (cases "n = 0")
    case True
    then show ?thesis by (simp add: READMEM_chunks_done device_read_def)
  next
    case False
    define k where "k = min chunk n"
    have kn: "k \<le> n" by (simp add: k_def)
    have ih: "concat (map (\<lambda>r. device_read mem (sr_address r) (sr_read_length r))
        (READMEM_chunks chunk (rid + 1) (a + of_nat k) (n - k)))
        = device_read mem (a + of_nat k) (n - k)"
      using "1.IH" [of k] False "1.prems" by (simp add: k_def)
    have unf: "READMEM_chunks chunk rid a n =
        \<lparr>sr_request_id = rid, sr_address = a, sr_read_length = k\<rparr>
          # READMEM_chunks chunk (rid + 1) (a + of_nat k) (n - k)"
      using False "1.prems" by (simp add: READMEM_chunks_step k_def)
    have "concat (map (\<lambda>r. device_read mem (sr_address r) (sr_read_length r))
        (READMEM_chunks chunk rid a n))
        = device_read mem a k @ device_read mem (a + of_nat k) (n - k)"
      unfolding unf using ih by simp
    also have "\<dots> = device_read mem a (k + (n - k))"
      by (rule device_read_append [symmetric])
    also have "k + (n - k) = n" using kn by simp
    finally show ?thesis .
  qed
qed

text \<open>The number of sub-reads is the quotient rounded up.\<close>

lemma chunks_length:
  "0 < chunk \<Longrightarrow> length (READMEM_chunks chunk rid a n) = (n + chunk - 1) div chunk"
proof (induction chunk rid a n rule: READMEM_chunks.induct)
  case (1 chunk rid a n)
  show ?case
  proof (cases "n = 0")
    case True
    then show ?thesis using "1.prems" by (simp add: READMEM_chunks_done)
  next
    case False
    define k where "k = min chunk n"
    have ih: "length (READMEM_chunks chunk (rid + 1) (a + of_nat k) (n - k))
        = (n - k + chunk - 1) div chunk"
      using "1.IH" [of k] False "1.prems" by (simp add: k_def)
    have unf: "READMEM_chunks chunk rid a n =
        \<lparr>sr_request_id = rid, sr_address = a, sr_read_length = k\<rparr>
          # READMEM_chunks chunk (rid + 1) (a + of_nat k) (n - k)"
      using False "1.prems" by (simp add: READMEM_chunks_step k_def)
    show ?thesis
    proof (cases "chunk \<le> n")
      case True
      then have k: "k = chunk" by (simp add: k_def)
      have "(n + chunk - 1) div chunk = (n - 1 + chunk) div chunk" using False by simp
      also have "\<dots> = (n - 1) div chunk + 1" using "1.prems" by simp
      finally show ?thesis using unf ih k True by simp
    next
      case False
      then have k: "k = n" by (simp add: k_def)
      have "(n + chunk - 1) div chunk = 1"
        using False \<open>n \<noteq> 0\<close> by (intro div_nat_eqI) simp_all
      moreover have "(chunk - 1) div chunk = 0" using "1.prems" by simp
      ultimately show ?thesis using unf ih k by simp
    qed
  qed
qed

lemma chunks_request_ids:
  "map sr_request_id (READMEM_chunks chunk rid a n)
     = map (\<lambda>i. rid + of_nat i) [0..<length (READMEM_chunks chunk rid a n)]"
proof (induction chunk rid a n rule: READMEM_chunks.induct)
  case (1 chunk rid a n)
  show ?case
  proof (cases "n = 0 \<or> chunk = 0")
    case True
    then show ?thesis by (simp add: READMEM_chunks.simps)
  next
    case False
    define k where "k = min chunk n"
    define rest where "rest = READMEM_chunks chunk (rid + 1) (a + of_nat k) (n - k)"
    have ih: "map sr_request_id rest = map (\<lambda>i. rid + 1 + of_nat i) [0..<length rest]"
      using "1.IH" [of k] False by (simp add: k_def rest_def)
    have unf: "READMEM_chunks chunk rid a n =
        \<lparr>sr_request_id = rid, sr_address = a, sr_read_length = k\<rparr> # rest"
      using False by (simp add: READMEM_chunks_step k_def rest_def)
    have "[0..<Suc (length rest)] = 0 # map Suc [0..<length rest]"
      by (simp add: upt_conv_Cons map_Suc_upt del: upt_Suc)
    then show ?thesis using ih unf by (simp add: comp_def add.assoc del: upt_Suc)
  qed
qed

lemma request_ids_distinct:
  fixes rid :: uint16_t
  assumes "m \<le> 2 ^ 16"
  shows "distinct (map (\<lambda>i. rid + of_nat i) [0..<m])"
proof -
  have "inj_on (\<lambda>i. rid + (of_nat i :: uint16_t)) (set [0..<m])"
  proof (rule inj_onI)
    fix i j assume i: "i \<in> set [0..<m]" and j: "j \<in> set [0..<m]"
      and e: "rid + (of_nat i :: uint16_t) = rid + of_nat j"
    from e have "(of_nat i :: uint16_t) = of_nat j" by simp
    then have "unat (of_nat i :: uint16_t) = unat (of_nat j :: uint16_t)" by simp
    moreover have "i < 2 ^ 16" "j < 2 ^ 16" using i j assms by simp_all
    ultimately show "i = j" by (simp add: unat_of_nat)
  qed
  then show ?thesis by (simp add: distinct_map)
qed

lemma chunks_bounded:
  "list_all (\<lambda>r. 0 < sr_read_length r \<and> sr_read_length r \<le> chunk)
     (READMEM_chunks chunk rid a n)"
proof (induction chunk rid a n rule: READMEM_chunks.induct)
  case (1 chunk rid a n)
  show ?case
  proof (cases "n = 0 \<or> chunk = 0")
    case True
    then show ?thesis by (simp add: READMEM_chunks.simps)
  next
    case False
    then have "list_all (\<lambda>r. 0 < sr_read_length r \<and> sr_read_length r \<le> chunk)
        (READMEM_chunks chunk (rid + 1) (a + of_nat (min chunk n)) (n - min chunk n))"
      using "1.IH" [of "min chunk n"] by simp
    then show ?thesis using False by (simp add: READMEM_chunks_step)
  qed
qed

lemma chunks_contiguous:
  "unat a + n \<le> 2 ^ 64 \<Longrightarrow>
   contiguous_from (unat a) (map sub_read_region (READMEM_chunks chunk rid a n))"
proof (induction chunk rid a n rule: READMEM_chunks.induct)
  case (1 chunk rid a n)
  show ?case
  proof (cases "n = 0 \<or> chunk = 0")
    case True
    then show ?thesis by (simp add: READMEM_chunks.simps)
  next
    case False
    define k where "k = min chunk n"
    define rest where "rest = READMEM_chunks chunk (rid + 1) (a + of_nat k) (n - k)"
    have unf: "READMEM_chunks chunk rid a n =
        \<lparr>sr_request_id = rid, sr_address = a, sr_read_length = k\<rparr> # rest"
      using False by (simp add: READMEM_chunks_step k_def rest_def)
    have hd: "sub_read_region \<lparr>sr_request_id = rid, sr_address = a, sr_read_length = k\<rparr>
        = (unat a, k)"
      by (simp add: sub_read_region_def)
    show ?thesis
    proof (cases "n - k = 0")
      case True
      then have "rest = []" by (simp add: rest_def READMEM_chunks_done)
      then show ?thesis using unf hd by simp
    next
      case nz: False
      then have "k < n" by simp
      with "1.prems" have lt: "unat a + k < 2 ^ 64" by simp
      then have u: "unat (a + of_nat k) = unat a + k"
        by (simp add: unat_word_ariths unat_of_nat)
      have "contiguous_from (unat (a + of_nat k)) (map sub_read_region rest)"
        unfolding rest_def using "1.IH" [of k] False "1.prems" u
        by (simp add: k_def)
      then show ?thesis using unf u hd by simp
    qed
  qed
qed

text \<open>
  Claim C6. With a maximum acknowledge length \<open>L\<close> above the 12 bytes of the header, a
  READMEM of \<open>n\<close> bytes at \<open>a\<close> is split into the quotient of \<open>n\<close> by \<open>L - 12\<close>, rounded
  up, sub-reads, none empty and none longer than \<open>L - 12\<close>; the request ids are the
  successive values of the 16-bit counter, different from each other as long as there are
  at most \<open>2 ^ 16\<close> sub-reads; the sub-reads cover contiguous ascending addresses from
  \<open>a\<close> when the range does not pass the end of the 64-bit address space; the
  concatenation of their payloads is the result of a single read of \<open>n\<close> bytes at \<open>a\<close>.
  With \<open>L = 64\<close> and \<open>n = 200\<close> there are 4 sub-reads.
\<close>

theorem READMEM_chunking:
  assumes "header_size < L"
  shows "length (READMEM_sub_reads L rid a n)
           = (n + (L - header_size) - 1) div (L - header_size) \<and>
         list_all (\<lambda>r. 0 < sr_read_length r \<and> sr_read_length r \<le> L - header_size)
           (READMEM_sub_reads L rid a n) \<and>
         map sr_request_id (READMEM_sub_reads L rid a n)
           = map (\<lambda>i. rid + of_nat i) [0..<length (READMEM_sub_reads L rid a n)] \<and>
         (length (READMEM_sub_reads L rid a n) \<le> 2 ^ 16 \<longrightarrow>
            distinct (map sr_request_id (READMEM_sub_reads L rid a n))) \<and>
         (unat a + n \<le> 2 ^ 64 \<longrightarrow>
            contiguous_from (unat a) (map sub_read_region (READMEM_sub_reads L rid a n))) \<and>
         READMEM_chunked mem L rid a n = device_read mem a n \<and>
         length (READMEM_sub_reads 64 rid 0x10000 200) = 4"
proof -
  from assms have c: "0 < L - header_size" by simp
  have ids: "map sr_request_id (READMEM_sub_reads L rid a n)
      = map (\<lambda>i. rid + of_nat i) [0..<length (READMEM_sub_reads L rid a n)]"
    unfolding READMEM_sub_reads_def by (rule chunks_request_ids)
  have "length (READMEM_sub_reads L rid a n) \<le> 2 ^ 16 \<longrightarrow>
      distinct (map sr_request_id (READMEM_sub_reads L rid a n))"
    by (subst ids) (simp add: request_ids_distinct)
  moreover have "length (READMEM_sub_reads 64 rid 0x10000 200) = 4"
    by (simp add: READMEM_sub_reads_def header_size_def chunks_length)
  moreover have "READMEM_chunked mem L rid a n = device_read mem a n"
    unfolding READMEM_chunked_def READMEM_sub_reads_def by (rule chunks_concat [OF c])
  moreover have "length (READMEM_sub_reads L rid a n)
      = (n + (L - header_size) - 1) div (L - header_size)"
    unfolding READMEM_sub_reads_def by (rule chunks_length [OF c])
  moreover have "list_all (\<lambda>r. 0 < sr_read_length r \<and> sr_read_length r \<le> L - header_size)
      (READMEM_sub_reads L rid a n)"
    unfolding READMEM_sub_reads_def by (rule chunks_bounded)
  moreover have "unat a + n \<le> 2 ^ 64 \<longrightarrow>
      contiguous_from (unat a) (map sub_read_region (READMEM_sub_reads L rid a n))"
    unfolding READMEM_sub_reads_def by (simp add: chunks_contiguous)
  ultimately show ?thesis using ids by (intro conjI)
qed

theorem READMEM_chunking_witness:
  "header_size < 64 \<and>
   length (READMEM_sub_reads 64 0xFFFF 0x10000 200) = 4 \<and>
   length (READMEM_sub_reads 64 0xFFFF 0x10000 200) \<le> 2 ^ 16 \<and>
   distinct (map sr_request_id (READMEM_sub_reads 64 0xFFFF 0x10000 200)) \<and>
   unat (0x10000 :: uint64_t) + 200 \<le> 2 ^ 64 \<and>
   contiguous_from 0x10000 (map sub_read_region (READMEM_sub_reads 64 0xFFFF 0x10000 200)) \<and>
   READMEM_chunked ucast 64 0xFFFF 0x10000 200 = device_read ucast 0x10000 200"
proof -
  have h: "header_size < 64" by (simp add: header_size_def)
  note t = READMEM_chunking [OF h, of "0xFFFF" "0x10000" 200 ucast]
  from t have len: "length (READMEM_sub_reads 64 0xFFFF 0x10000 200) = 4"
    by (elim conjE)
  then have le: "length (READMEM_sub_reads 64 0xFFFF 0x10000 200) \<le> 2 ^ 16" by simp
  have au: "unat (0x10000 :: uint64_t) + 200 \<le> 2 ^ 64" by simp
  from t have "length (READMEM_sub_reads 64 0xFFFF 0x10000 200) \<le> 2 ^ 16 \<longrightarrow>
      distinct (map sr_request_id (READMEM_sub_reads 64 0xFFFF 0x10000 200))"
    by (elim conjE)
  with le have dist: "distinct (map sr_request_id (READMEM_sub_reads 64 0xFFFF 0x10000 200))"
    by (rule rev_mp)
  from t have "unat (0x10000 :: uint64_t) + 200 \<le> 2 ^ 64 \<longrightarrow>
      contiguous_from (unat (0x10000 :: uint64_t))
        (map sub_read_region (READMEM_sub_reads 64 0xFFFF 0x10000 200))"
    by (elim conjE)
  with au have "contiguous_from (unat (0x10000 :: uint64_t))
      (map sub_read_region (READMEM_sub_reads 64 0xFFFF 0x10000 200))"
    by (rule rev_mp)
  then have cont: "contiguous_from 0x10000
      (map sub_read_region (READMEM_sub_reads 64 0xFFFF 0x10000 200))"
    by simp
  from t have rd: "READMEM_chunked ucast 64 0xFFFF 0x10000 200 = device_read ucast 0x10000 200"
    by (elim conjE)
  from h len le dist au cont rd show ?thesis by (intro conjI)
qed

section \<open>Payload reads\<close>

lemma transfers_Suc: "transfers off P (Suc C) = transfers off P C @ [(off + C * P, P)]"
  by (simp add: transfers_def)

lemma total_length_transfers: "total_length (transfers off P C) = C * P"
  by (induction C) (simp_all add: transfers_Suc total_length_append, simp_all add: total_length_def transfers_def)

lemma contiguous_transfers: "contiguous_from off (transfers off P C)"
  by (induction C) (simp_all add: transfers_Suc contiguous_from_append total_length_transfers, simp add: transfers_def)

lemma record_submit_apply: "record_submit pool c l = (None, pool @ [(unat c, unat l)])"
  by (simp add: record_submit_def)

lemma loop_record:
  "read_payload_loop record_submit ps k pool cursor =
     (None, pool @ map (\<lambda>i. (unat (cursor + of_nat i * ps), unat ps)) [0..<k], cursor + of_nat k * ps)"
proof (induction k arbitrary: pool cursor)
  case 0
  then show ?case by simp
next
  case (Suc k)
  have s: "[0..<Suc k] = 0 # map Suc [0..<k]"
    by (simp add: upt_conv_Cons map_Suc_upt del: upt_Suc)
  have a: "cursor + ps + of_nat i * ps = cursor + (1 + of_nat i) * ps" for i
    by (simp add: algebra_simps)
  have "read_payload_loop record_submit ps (Suc k) pool cursor
      = read_payload_loop record_submit ps k (pool @ [(unat cursor, unat ps)]) (cursor + ps)"
    by (simp add: record_submit_apply)
  also have "\<dots> = (None, (pool @ [(unat cursor, unat ps)])
        @ map (\<lambda>i. (unat (cursor + ps + of_nat i * ps), unat ps)) [0..<k],
      cursor + ps + of_nat k * ps)"
    by (rule Suc.IH)
  finally show ?case
    unfolding s by (simp add: comp_def a)
qed


lemma unat_mult_small:
  fixes ps :: size_t
  assumes "i * unat ps < 2 ^ 64" "i < 2 ^ 64"
  shows "unat (of_nat i * ps) = i * unat ps"
proof -
  have "unat (of_nat i :: size_t) = i" using assms(2) by (simp add: unat_of_nat)
  then show ?thesis using assms(1) by (simp add: unat_word_ariths)
qed

lemma unat_add_small:
  fixes a b :: size_t
  assumes "unat a + unat b < 2 ^ 64"
  shows "unat (a + b) = unat a + unat b"
  using assms by (simp add: unat_word_ariths)

lemma unat_maximum_payload_size:
  assumes "no_overflow params"
  shows "unat (maximum_payload_size params) =
     unat (payload_size params) * unat (payload_count params)
       + unat (payload_final1_size params) + unat (payload_final2_size params)"
proof -
  let ?P = "unat (payload_size params)" and ?C = "unat (payload_count params)"
  let ?F1 = "unat (payload_final1_size params)" and ?F2 = "unat (payload_final2_size params)"
  from assms have n: "?P * ?C + ?F1 + ?F2 < 2 ^ 64" by (simp add: no_overflow_def)
  have m: "unat (payload_size params * payload_count params) = ?P * ?C"
    using n by (simp add: unat_word_ariths)
  have a: "unat (payload_size params * payload_count params + payload_final1_size params)
      = ?P * ?C + ?F1"
    using n m by (simp add: unat_add_small)
  show ?thesis
    unfolding maximum_payload_size_def using n a by (simp add: unat_add_small)
qed

lemma try_record:
  assumes "no_overflow params"
  shows "read_payload_try record_submit [] params = (None, payload_regions params)"
proof -
  let ?ps = "payload_size params" and ?pc = "payload_count params"
  let ?P = "unat ?ps" and ?C = "unat ?pc"
  let ?F1 = "unat (payload_final1_size params)" and ?F2 = "unat (payload_final2_size params)"
  from assms have n: "?P * ?C + ?F1 + ?F2 < 2 ^ 64" by (simp add: no_overflow_def)
  have C: "?C < 2 ^ 64" using unsigned_less [of ?pc, where ?'a = nat] by simp
  have small: "i * ?P < 2 ^ 64" if "i \<le> ?C" for i
  proof -
    have "i * ?P \<le> ?C * ?P" using that by simp
    also have "\<dots> < 2 ^ 64" using n by (simp add: mult.commute)
    finally show ?thesis .
  qed
  have reg: "map (\<lambda>i. (unat (0 + of_nat i * ?ps), ?P)) [0..<?C] = transfers 0 ?P ?C"
    unfolding transfers_def
  proof (rule map_cong [OF refl])
    fix i assume "i \<in> set [0..<?C]"
    then have i: "i \<le> ?C" "i < 2 ^ 64" using C by simp_all
    show "(unat (0 + of_nat i * ?ps), ?P) = (0 + i * ?P, ?P)"
      using unat_mult_small [OF small [OF i(1)] i(2)] by simp
  qed
  have cur: "of_nat ?C * ?ps = ?pc * ?ps" by simp
  have ucur: "unat (?pc * ?ps) = ?C * ?P"
    using n by (simp add: unat_word_ariths mult.commute)
  have ucur1: "unat (?pc * ?ps + payload_final1_size params) = ?C * ?P + ?F1"
    using n ucur by (simp add: unat_add_small mult.commute)
  have loop: "read_payload_loop record_submit ?ps ?C [] 0
      = (None, transfers 0 ?P ?C, ?pc * ?ps)"
    unfolding loop_record using reg by simp
  have f1z: "payload_final1_size params = 0 \<Longrightarrow> ?F1 = 0" by simp
  show ?thesis
    unfolding read_payload_try_def loop payload_regions_def
    by (simp add: record_submit_apply ucur ucur1)
qed


lemma total_length_Nil: "total_length [] = 0"
  by (simp add: total_length_def)

lemma contiguous_payload_regions: "contiguous_from 0 (payload_regions params)"
  unfolding payload_regions_def
  by (simp add: contiguous_from_append contiguous_transfers total_length_transfers
      total_length_Cons total_length_Nil)

lemma total_length_payload_regions:
  "total_length (payload_regions params) =
     unat (payload_size params) * unat (payload_count params)
       + unat (payload_final1_size params) + unat (payload_final2_size params)"
  unfolding payload_regions_def
  by (simp add: total_length_append total_length_transfers total_length_Cons total_length_Nil)

lemma size_less_iff:
  assumes "no_overflow params"
  shows "buf_size < maximum_payload_size params \<longleftrightarrow>
     unat buf_size < unat (payload_size params) * unat (payload_count params)
       + unat (payload_final1_size params) + unat (payload_final2_size params)"
  unfolding word_less_nat_alt unat_maximum_payload_size [OF assms] ..

lemma u32_no_overflow:
  fixes a b c d :: uint32_t
  shows "unat (ucast a :: size_t) * unat (ucast b :: size_t) + unat (ucast c :: size_t) + unat (ucast d :: size_t) < 2 ^ 64"
proof -
  have b: "unat x \<le> 2 ^ 32 - 1" for x :: uint32_t
    using unsigned_less [of x, where ?'a = nat] by simp
  have u: "unat (ucast x :: size_t) = unat x" for x :: uint32_t
    by (simp add: unsigned_ucast_eq take_bit_nat_eq_self_iff)
       (rule less_trans [OF unsigned_less], simp)
  have "unat a * unat b \<le> (2 ^ 32 - 1) * (2 ^ 32 - 1)"
    by (rule mult_le_mono [OF b b])
  then have "unat a * unat b + unat c + unat d \<le> (2 ^ 32 - 1) * (2 ^ 32 - 1) + (2 ^ 32 - 1) + (2 ^ 32 - 1)"
    using b [of c] b [of d] by linarith
  also have "\<dots> < (2 ^ 64 :: nat)" by simp
  finally show ?thesis by (simp only: u)
qed

lemma from_control_no_overflow:
  assumes "fst (from_control ControlHandle_registers h) = Inr params"
  shows "no_overflow params"
proof -
  let ?d = "device h"
  from assms have "params =
      \<lparr>leader_size = ucast (sirm_maximum_leader_size ?d),
       trailer_size = ucast (sirm_maximum_trailer_size ?d),
       payload_size = ucast (sirm_payload_transfer_size ?d),
       payload_count = ucast (sirm_payload_transfer_count ?d),
       payload_final1_size = ucast (sirm_payload_final_transfer1_size ?d),
       payload_final2_size = ucast (sirm_payload_final_transfer2_size ?d),
       timeout = seconds_of_milliseconds (uint (abrm_maximum_device_response_time ?d))\<rparr>"
    by (auto simp: from_control_def ControlHandle_registers_def Let_def split: if_splits)
  then show ?thesis
    unfolding no_overflow_def
    using u32_no_overflow [of "sirm_payload_transfer_size ?d" "sirm_payload_transfer_count ?d"
        "sirm_payload_final_transfer1_size ?d" "sirm_payload_final_transfer2_size ?d"]
    by simp
qed

lemma word_transfers_Suc:
  "word_transfers ps cursor (Suc k) = (unat cursor, unat ps) # word_transfers ps (cursor + ps) k"
proof -
  have s: "[0..<Suc k] = 0 # map Suc [0..<k]"
    by (simp add: upt_conv_Cons map_Suc_upt del: upt_Suc)
  have a: "cursor + ps + of_nat i * ps = cursor + (1 + of_nat i) * ps" for i
    by (simp add: algebra_simps)
  show ?thesis unfolding word_transfers_def s by (simp add: comp_def a)
qed

lemma word_transfers_0: "word_transfers ps cursor 0 = []"
  by (simp add: word_transfers_def)

lemma word_transfers_prefix:
  assumes "j \<le> k"
  shows "\<exists>zs. word_transfers ps cursor k = word_transfers ps cursor j @ zs"
proof -
  from assms obtain d where k: "k = j + d" by (auto simp: le_iff_add)
  have "[0..<j + d] = [0..<j] @ [j..<j + d]"
    by (rule upt_add_eq_append) simp
  then have "word_transfers ps cursor k = word_transfers ps cursor j
      @ map (\<lambda>i. (unat (cursor + of_nat i * ps), unat ps)) [j..<j + d]"
    unfolding word_transfers_def k by simp
  then show ?thesis by blast
qed

lemma logged_apply:
  "logged submit (pool, tr) cursor len =
     (fst (submit pool cursor len), (snd (submit pool cursor len), tr @ [(unat cursor, unat len)]))"
  by (simp add: logged_def split: prod.splits)

lemma loop_logged:
  "\<exists>j\<le>k. snd (fst (snd (read_payload_loop (logged submit) ps k (pool, tr) cursor)))
            = tr @ word_transfers ps cursor j \<and>
     (fst (read_payload_loop (logged submit) ps k (pool, tr) cursor) = None \<longrightarrow>
        j = k \<and> snd (snd (read_payload_loop (logged submit) ps k (pool, tr) cursor))
                 = cursor + of_nat k * ps)"
proof (induction k arbitrary: pool tr cursor)
  case 0
  then show ?case by (simp add: word_transfers_0)
next
  case (Suc k)
  obtain e pool1 where s: "submit pool cursor ps = (e, pool1)" by (cases "submit pool cursor ps")
  show ?case
  proof (cases e)
    case (Some m)
    then have "read_payload_loop (logged submit) ps (Suc k) (pool, tr) cursor
        = (Some m, (pool1, tr @ [(unat cursor, unat ps)]), cursor)"
      using s by (simp add: logged_apply)
    then show ?thesis
      by (intro exI [of _ 1]) (simp add: word_transfers_Suc word_transfers_0)
  next
    case None
    then have r: "read_payload_loop (logged submit) ps (Suc k) (pool, tr) cursor
        = read_payload_loop (logged submit) ps k (pool1, tr @ [(unat cursor, unat ps)]) (cursor + ps)"
      using s by (simp add: logged_apply)
    from Suc.IH [of pool1 "tr @ [(unat cursor, unat ps)]" "cursor + ps"]
    obtain j where j: "j \<le> k"
      "snd (fst (snd (read_payload_loop (logged submit) ps k (pool1, tr @ [(unat cursor, unat ps)]) (cursor + ps))))
         = (tr @ [(unat cursor, unat ps)]) @ word_transfers ps (cursor + ps) j"
      "fst (read_payload_loop (logged submit) ps k (pool1, tr @ [(unat cursor, unat ps)]) (cursor + ps)) = None \<longrightarrow>
        j = k \<and> snd (snd (read_payload_loop (logged submit) ps k (pool1, tr @ [(unat cursor, unat ps)]) (cursor + ps)))
                 = cursor + ps + of_nat k * ps"
      by (elim exE conjE) 
    show ?thesis
      unfolding r using j
      by (intro exI [of _ "Suc j"]) (simp add: word_transfers_Suc add.assoc distrib_right)
  qed
qed


lemma loop_record_transfers:
  "read_payload_loop record_submit ps k pool cursor =
     (None, pool @ word_transfers ps cursor k, cursor + of_nat k * ps)"
  unfolding word_transfers_def by (rule loop_record)

lemma try_logged:
  "(\<exists>zs. snd (read_payload_try record_submit [] params)
          = snd (snd (read_payload_try (logged submit) (pool, []) params)) @ zs) \<and>
   (fst (read_payload_try (logged submit) (pool, []) params) = None \<longrightarrow>
      snd (snd (read_payload_try (logged submit) (pool, []) params))
        = snd (read_payload_try record_submit [] params))"
proof -
  let ?ps = "payload_size params" and ?C = "unat (payload_count params)"
  let ?L = "read_payload_loop (logged submit) ?ps ?C (pool, []) 0"
  obtain e p1 l1 c1 where L: "?L = (e, (p1, l1), c1)" by (metis prod.collapse)
  from loop_logged [of ?C submit ?ps pool "[]" 0] L
  obtain j where j: "j \<le> ?C" "l1 = word_transfers ?ps 0 j"
    "e = None \<longrightarrow> j = ?C \<and> c1 = of_nat ?C * ?ps"
    by auto
  from word_transfers_prefix [OF j(1), of ?ps 0] obtain zs
    where zs: "word_transfers ?ps 0 ?C = l1 @ zs" using j(2) by blast
  show ?thesis
  proof (cases e)
    case (Some m)
    then show ?thesis
      unfolding read_payload_try_def L loop_record_transfers using zs
      by (simp add: record_submit_apply)
  next
    case None
    with j have l1: "l1 = word_transfers ?ps 0 ?C" and c1: "c1 = of_nat ?C * ?ps" by simp_all
    show ?thesis
      unfolding read_payload_try_def L loop_record_transfers None l1 c1
      by (simp add: record_submit_apply logged_apply split: prod.splits option.splits)
  qed
qed


lemma pairwise_disjoint_prefix: "pairwise_disjoint (xs @ zs) \<Longrightarrow> pairwise_disjoint xs"
  by (induction xs) simp_all

lemma read_payload_too_small:
  "buf_size < maximum_payload_size params \<Longrightarrow>
   read_payload submit pool params buf_size
     = (Some (runtime_error ''Buffer is too small to read the payload''), pool)"
  by (simp add: read_payload_def maximum_payload_size_def)

lemma read_payload_large_enough:
  assumes "\<not> buf_size < maximum_payload_size params"
  shows "snd (read_payload submit pool params buf_size) = snd (read_payload_try submit pool params)"
    and "fst (read_payload submit pool params buf_size) = None
          \<longleftrightarrow> fst (read_payload_try submit pool params) = None"
    and "fst (read_payload submit pool params buf_size)
          \<noteq> Some (runtime_error ''Buffer is too small to read the payload'')"
  using assms
  by (auto simp: read_payload_def maximum_payload_size_def split: prod.splits option.splits)

lemma never_throws_accepting: "never_throws accepting"
  by (simp add: never_throws_def accepting_def)

lemma logged_never_throws: "never_throws submit \<Longrightarrow> fst (logged submit pl cursor len) = None"
  by (simp add: never_throws_def logged_def split: prod.splits) (metis fst_conv)

lemma loop_never_throws:
  assumes "never_throws submit"
  shows "fst (read_payload_loop (logged submit) ps k pl cursor) = None"
proof (induction k arbitrary: pl cursor)
  case 0
  then show ?case by simp
next
  case (Suc k)
  obtain e pl1 where s: "logged submit pl cursor ps = (e, pl1)" by (cases "logged submit pl cursor ps")
  with logged_never_throws [OF assms, of pl cursor ps] have "e = None" by simp
  with s show ?case by (simp add: Suc.IH)
qed

lemma try_never_throws:
  assumes "never_throws submit"
  shows "fst (read_payload_try (logged submit) pl params) = None"
proof -
  obtain e p1 c1 where L: "read_payload_loop (logged submit) (payload_size params)
      (unat (payload_count params)) pl 0 = (e, p1, c1)"
    by (metis prod.collapse)
  with loop_never_throws [OF assms, of "payload_size params" "unat (payload_count params)" pl 0]
  have e: "e = None" by simp
  have f: "fst (logged submit q c l) = None" for q c l
    by (rule logged_never_throws [OF assms])
  show ?thesis
    unfolding read_payload_try_def L e
    using f by (simp split: prod.splits option.splits) (metis fst_conv option.distinct(1))
qed

lemma read_payload_loop_numeral:
  "read_payload_loop submit ps (numeral n) pool cursor =
     (case submit pool cursor ps of
        (Some e, pool1) \<Rightarrow> (Some e, pool1, cursor)
      | (None, pool1) \<Rightarrow> read_payload_loop submit ps (pred_numeral n) pool1 (cursor + ps))"
  by (simp add: numeral_eq_Suc)

text \<open>
  Claim C10, as stated, fails in two ways. A pool may throw: the pool that accepts two
  requests gets the three transfers of 1024 bytes submitted, throws at the third, and
  \<^verbatim>\<open>read_payload\<close> ends with the \<^verbatim>\<open>StreamError\<close>, the final transfer of 100 bytes
  never submitted; the regions submitted are 3072 bytes, \<^verbatim>\<open>maximum_payload_size()\<close> is
  3172. And the total wraps: with a payload size of \<open>2 ^ 63\<close> and a payload count of 2 it
  is 0 in \<^verbatim>\<open>size_t\<close>, an empty buffer passes the check, and the two reads that are
  submitted, of \<open>2 ^ 63\<close> bytes each, lie outside it and together are longer than
  \<^verbatim>\<open>maximum_payload_size()\<close>.
\<close>

theorem read_payload_throw_and_wrap:
  "no_overflow
     \<lparr>leader_size = 52, trailer_size = 32, payload_size = 1024, payload_count = 3,
       payload_final1_size = 100, payload_final2_size = 0, timeout = 1 / 2\<rparr> \<and>
   maximum_payload_size
     \<lparr>leader_size = 52, trailer_size = 32, payload_size = 1024, payload_count = 3,
       payload_final1_size = 100, payload_final2_size = 0, timeout = 1 / 2\<rparr> = 3172 \<and>
   read_payload (logged countdown) (2, [])
     \<lparr>leader_size = 52, trailer_size = 32, payload_size = 1024, payload_count = 3,
       payload_final1_size = 100, payload_final2_size = 0, timeout = 1 / 2\<rparr> 4096
     = (Some (StreamError_what ''Failed to read payload: transfer refused''),
        (0, [(0, 1024), (1024, 1024), (2048, 1024)])) \<and>
   total_length [(0, 1024), (1024, 1024), (2048, 1024)] \<noteq> unat (3172 :: size_t) \<and>
   maximum_payload_size
     \<lparr>leader_size = 52, trailer_size = 32, payload_size = 0x8000000000000000,
      payload_count = 2, payload_final1_size = 0, payload_final2_size = 0,
      timeout = 1 / 2\<rparr> = 0 \<and>
   read_payload (logged accepting) ((), [])
     \<lparr>leader_size = 52, trailer_size = 32, payload_size = 0x8000000000000000,
      payload_count = 2, payload_final1_size = 0, payload_final2_size = 0,
      timeout = 1 / 2\<rparr> 0
     = (None, (), [(0, 0x8000000000000000), (0x8000000000000000, 0x8000000000000000)]) \<and>
   \<not> list_all (region_within (unat (0 :: size_t)))
       [(0, 0x8000000000000000), (0x8000000000000000, 0x8000000000000000)] \<and>
   total_length [(0, 0x8000000000000000), (0x8000000000000000, 0x8000000000000000)]
     \<noteq> unat (0 :: size_t)"
  by (simp add: read_payload_def read_payload_try_def read_payload_loop_numeral logged_apply
      accepting_def countdown_def maximum_payload_size_def region_within_def total_length_def
      no_overflow_def)

text \<open>
  Claim C10, amended. For stream parameters whose total payload size, computed without
  wrap-around, fits \<^verbatim>\<open>size_t\<close> (as it does whenever the six sizes come from the 32-bit
  SIRM registers), and for every pool: \<^verbatim>\<open>read_payload\<close> fails with "Buffer is too small
  to read the payload" exactly when the buffer size is less than payload size times
  payload count plus the two final sizes, and then submits nothing and leaves the pool as
  it was. Otherwise every region it submits lies within the buffer, the regions are
  contiguous from offset 0 and disjoint from each other, and they are the first of the
  regions of the transfers, in order; and if the pool's submit never throws,
  \<^verbatim>\<open>read_payload\<close> throws nothing and submits all of them, their total length being
  \<^verbatim>\<open>maximum_payload_size()\<close>.
\<close>

theorem read_payload_regions:
  assumes "no_overflow params"
  shows "(fst (read_payload (logged submit) (pool, []) params buf_size)
            = Some (runtime_error ''Buffer is too small to read the payload'')
          \<longleftrightarrow> unat buf_size < unat (payload_size params) * unat (payload_count params)
                + unat (payload_final1_size params) + unat (payload_final2_size params)) \<and>
         (unat buf_size < unat (payload_size params) * unat (payload_count params)
                + unat (payload_final1_size params) + unat (payload_final2_size params)
          \<longrightarrow> read_payload (logged submit) (pool, []) params buf_size
                = (Some (runtime_error ''Buffer is too small to read the payload''), (pool, []))) \<and>
         (\<not> unat buf_size < unat (payload_size params) * unat (payload_count params)
                + unat (payload_final1_size params) + unat (payload_final2_size params)
          \<longrightarrow> list_all (region_within (unat buf_size))
                (snd (snd (read_payload (logged submit) (pool, []) params buf_size))) \<and>
              contiguous_from 0
                (snd (snd (read_payload (logged submit) (pool, []) params buf_size))) \<and>
              pairwise_disjoint
                (snd (snd (read_payload (logged submit) (pool, []) params buf_size))) \<and>
              (\<exists>rest. payload_regions params
                 = snd (snd (read_payload (logged submit) (pool, []) params buf_size)) @ rest) \<and>
              (never_throws submit \<longrightarrow>
                 fst (read_payload (logged submit) (pool, []) params buf_size) = None \<and>
                 snd (snd (read_payload (logged submit) (pool, []) params buf_size))
                   = payload_regions params \<and>
                 total_length
                   (snd (snd (read_payload (logged submit) (pool, []) params buf_size)))
                   = unat (maximum_payload_size params)))"
proof (cases "buf_size < maximum_payload_size params")
  case True
  show ?thesis
    unfolding read_payload_too_small [OF True]
    using True size_less_iff [OF assms, of buf_size] by simp
next
  case False
  let ?tr = "snd (snd (read_payload_try (logged submit) (pool, []) params))"
  note large = read_payload_large_enough [OF False, of "logged submit" "(pool, [])"]
  have rec: "snd (read_payload_try record_submit [] params) = payload_regions params"
    by (simp only: try_record [OF assms] snd_conv)
  have ex: "\<exists>zs. payload_regions params = ?tr @ zs"
    using try_logged [of params submit pool, THEN conjunct1] unfolding rec .
  then obtain zs where zs: "payload_regions params = ?tr @ zs" ..
  have all: "fst (read_payload_try (logged submit) (pool, []) params) = None
      \<longrightarrow> ?tr = payload_regions params"
    using try_logged [of params submit pool, THEN conjunct2] unfolding rec .
  have t: "total_length (payload_regions params) = unat (maximum_payload_size params)"
    by (simp only: total_length_payload_regions unat_maximum_payload_size [OF assms])
  from False have le: "unat (maximum_payload_size params) \<le> unat buf_size"
    by (simp add: word_less_nat_alt)
  have "list_all (region_within (0 + total_length (payload_regions params)))
      (payload_regions params)"
    by (rule contiguous_within [OF contiguous_payload_regions])
  then have "list_all (region_within (unat buf_size)) (payload_regions params)"
    using le t by (auto intro: region_within_mono)
  then have w: "list_all (region_within (unat buf_size)) ?tr"
    unfolding zs by simp
  have c: "contiguous_from 0 ?tr"
    using contiguous_payload_regions [of params] unfolding zs contiguous_from_append by simp
  have "pairwise_disjoint (payload_regions params)"
    by (rule contiguous_disjoint [OF contiguous_payload_regions])
  then have d: "pairwise_disjoint ?tr"
    unfolding zs by (rule pairwise_disjoint_prefix)
  have nt: "never_throws submit \<longrightarrow>
      fst (read_payload_try (logged submit) (pool, []) params) = None \<and>
      ?tr = payload_regions params \<and>
      total_length ?tr = unat (maximum_payload_size params)"
    using all t try_never_throws [of submit "(pool, [])" params] by simp
  show ?thesis
    unfolding large(1) large(2)
    using large(3) False size_less_iff [OF assms, of buf_size] w c d ex nt t by simp
qed

theorem read_payload_regions_witness:
  "no_overflow
     \<lparr>leader_size = 52, trailer_size = 32, payload_size = 1024, payload_count = 3,
       payload_final1_size = 100, payload_final2_size = 0, timeout = 1 / 2\<rparr> \<and>
   never_throws accepting \<and>
   read_payload (logged accepting) ((), [])
     \<lparr>leader_size = 52, trailer_size = 32, payload_size = 1024, payload_count = 3,
       payload_final1_size = 100, payload_final2_size = 0, timeout = 1 / 2\<rparr> 3171
     = (Some (runtime_error ''Buffer is too small to read the payload''), ((), [])) \<and>
   fst (read_payload (logged accepting) ((), [])
     \<lparr>leader_size = 52, trailer_size = 32, payload_size = 1024, payload_count = 3,
       payload_final1_size = 100, payload_final2_size = 0, timeout = 1 / 2\<rparr> 3172) = None \<and>
   list_all (region_within (unat (3172 :: size_t)))
     (snd (snd (read_payload (logged accepting) ((), [])
     \<lparr>leader_size = 52, trailer_size = 32, payload_size = 1024, payload_count = 3,
       payload_final1_size = 100, payload_final2_size = 0, timeout = 1 / 2\<rparr> 3172))) \<and>
   contiguous_from 0 (snd (snd (read_payload (logged accepting) ((), [])
     \<lparr>leader_size = 52, trailer_size = 32, payload_size = 1024, payload_count = 3,
       payload_final1_size = 100, payload_final2_size = 0, timeout = 1 / 2\<rparr> 3172))) \<and>
   pairwise_disjoint (snd (snd (read_payload (logged accepting) ((), [])
     \<lparr>leader_size = 52, trailer_size = 32, payload_size = 1024, payload_count = 3,
       payload_final1_size = 100, payload_final2_size = 0, timeout = 1 / 2\<rparr> 3172))) \<and>
   snd (snd (read_payload (logged accepting) ((), [])
     \<lparr>leader_size = 52, trailer_size = 32, payload_size = 1024, payload_count = 3,
       payload_final1_size = 100, payload_final2_size = 0, timeout = 1 / 2\<rparr> 3172))
     = [(0, 1024), (1024, 1024), (2048, 1024), (3072, 100)] \<and>
   total_length (snd (snd (read_payload (logged accepting) ((), [])
     \<lparr>leader_size = 52, trailer_size = 32, payload_size = 1024, payload_count = 3,
       payload_final1_size = 100, payload_final2_size = 0, timeout = 1 / 2\<rparr> 3172))) = 3172"
proof -
  define params :: StreamParams where "params =
     \<lparr>leader_size = 52, trailer_size = 32, payload_size = 1024, payload_count = 3,
       payload_final1_size = 100, payload_final2_size = 0, timeout = 1 / 2\<rparr>"
  have h: "no_overflow params" by (simp add: no_overflow_def params_def)
  have m: "unat (maximum_payload_size params) = 3172"
    by (simp add: maximum_payload_size_def params_def)
  have r: "payload_regions params = [(0, 1024), (1024, 1024), (2048, 1024), (3072, 100)]"
    by (simp add: payload_regions_def transfers_def params_def upt_rec)
  have small: "unat (3171 :: size_t) < unat (payload_size params) * unat (payload_count params)
      + unat (payload_final1_size params) + unat (payload_final2_size params)"
    by (simp add: params_def)
  have large: "\<not> unat (3172 :: size_t) < unat (payload_size params) * unat (payload_count params)
      + unat (payload_final1_size params) + unat (payload_final2_size params)"
    by (simp add: params_def)
  note n = never_throws_accepting
  from read_payload_regions [OF h, of accepting "()" 3171] small
  have a: "read_payload (logged accepting) ((), []) params 3171
        = (Some (runtime_error ''Buffer is too small to read the payload''), ((), []))"
    by blast
  from read_payload_regions [OF h, of accepting "()" 3172] large n
  have b: "fst (read_payload (logged accepting) ((), []) params 3172) = None"
      "list_all (region_within (unat (3172 :: size_t)))
        (snd (snd (read_payload (logged accepting) ((), []) params 3172)))"
      "contiguous_from 0 (snd (snd (read_payload (logged accepting) ((), []) params 3172)))"
      "pairwise_disjoint (snd (snd (read_payload (logged accepting) ((), []) params 3172)))"
      "snd (snd (read_payload (logged accepting) ((), []) params 3172)) = payload_regions params"
      "total_length (snd (snd (read_payload (logged accepting) ((), []) params 3172)))
         = unat (maximum_payload_size params)"
    by blast+
  from h n a b show ?thesis unfolding m r unfolding params_def by (intro conjI)
qed

end
